theory Spec2Isabelle
  imports Main "HOL-Library.AList"
begin

section \<open>JavaScript values handed to the container\<close>

text \<open>
  A provider's \<open>useClass\<close> is typed \<open>Class<any> | any\<close>: any JavaScript value.  The
  container only ever does three things with such a value: it invokes it with \<open>new\<close>
  and no arguments, it enumerates its own enumerable properties, and it stores it.  The
  embedding therefore keeps, for every value, its own enumerable properties and what a
  zero-argument \<open>new\<close> on it does.

  A value that is thrown is either an object carrying a string \<open>message\<close> (every
  \<open>Error\<close>), or something whose \<open>message\<close> is \<open>undefined\<close> (\<open>throw 'boom'\<close>).
  Constructors are taken to be deterministic and free of effects on the module: two
  zero-argument constructions of the same class behave alike.
\<close>

datatype thrown = ErrorMessage string | NoMessage

datatype 'v construction =
    Builds "(string \<times> 'v) list"
  | Raises thrown

datatype js_value =
    JUndefined
  | JBoolean bool
  | JNumber int
  | JString string
  | JObject "(string \<times> js_value) list"
  | JInstance string "(string \<times> js_value) list"
  | JClass string "(string \<times> js_value) list" "js_value construction"

text \<open>
  \<open>JObject ps\<close> is an object literal with own properties \<open>ps\<close>; \<open>JInstance c fs\<close> is an
  object built by the class named \<open>c\<close>, with own properties \<open>fs\<close>;
  \<open>JClass c statics ctor\<close> is a constructor function named \<open>c\<close> whose own enumerable
  properties are \<open>statics\<close> and whose zero-argument construction either assigns the
  listed instance fields or throws.  Every other value (primitives, object literals,
  instances) is not a constructor: \<open>new\<close> on it makes the engine raise a \<open>TypeError\<close>
  whose message ends in "is not a constructor".  Built instances are ordinary objects:
  an assignment to a property takes effect.
\<close>

datatype error =
    DoubleInitialization string
  | NotInitialized string
  | ProvidersAfterInit string
  | UnresolvedKey string
  | TypeError string
  | Raised thrown

text \<open>
  The first four constructors are the four \<open>throw new Error(...)\<close> sites of
  \<open>ServiceModule\<close> and \<open>ExpressServiceModule\<close>, each with the message the source
  builds.  \<open>TypeError\<close> is raised by the engine (the payload describes the failed
  access); \<open>Raised t\<close> is a value thrown by a provider's constructor, passing through.
\<close>

fun js_new :: "js_value \<Rightarrow> thrown + js_value" where
  "js_new (JClass c statics (Builds fields)) = Inr (JInstance c fields)"
| "js_new (JClass c statics (Raises t)) = Inl t"
| "js_new v = Inl (ErrorMessage ''object is not a constructor'')"

fun own_enumerable :: "js_value \<Rightarrow> (string \<times> js_value) list" where
  "own_enumerable (JObject ps) = ps"
| "own_enumerable (JInstance c fs) = fs"
| "own_enumerable (JClass c statics ctor) = statics"
| "own_enumerable v = []"

definition get_prop :: "js_value \<Rightarrow> string \<Rightarrow> js_value" where
  "get_prop obj key = (case map_of (own_enumerable obj) key of None \<Rightarrow> JUndefined | Some x \<Rightarrow> x)"

fun set_prop :: "js_value \<Rightarrow> string \<Rightarrow> js_value \<Rightarrow> js_value" where
  "set_prop (JObject ps) key x = JObject (AList.update key x ps)"
| "set_prop (JInstance c fs) key x = JInstance c (AList.update key x fs)"
| "set_prop (JClass c statics ctor) key x = JClass c (AList.update key x statics) ctor"
| "set_prop v key x = v"

subsection \<open>\<open>String.prototype.indexOf\<close>\<close>

fun starts_with :: "string \<Rightarrow> string \<Rightarrow> bool" where
  "starts_with s [] = True"
| "starts_with [] (p # ps) = False"
| "starts_with (c # cs) (p # ps) = (c = p \<and> starts_with cs ps)"

fun indexOf_from :: "string \<Rightarrow> string \<Rightarrow> int \<Rightarrow> int" where
  "indexOf_from [] pat i = (if pat = [] then i else - 1)"
| "indexOf_from (c # cs) pat i =
     (if starts_with (c # cs) pat then i else indexOf_from cs pat (i + 1))"

definition indexOf :: "string \<Rightarrow> string \<Rightarrow> int" where
  "indexOf s pat = indexOf_from s pat 0"

section \<open>DependencyContainer\<close>

text \<open>
  The repository holds two versions of \<open>DependencyContainer\<close>.  The one embedded here
  is the later one, whose \<open>initialize\<close> probes each value with \<open>isConstructable\<close>
  before building it; the earlier one applies \<open>new\<close> to every stored value.

  \<open>private container: Map<InjectionKey, Class<any> | any>\<close>.  A JavaScript \<open>Map\<close>
  keeps its entries in insertion order, and \<open>set\<close> on a key already present replaces
  the value where it stands: an association list under \<open>AList.update\<close>.
\<close>

type_synonym container = "(string \<times> js_value) list"

definition register :: "string \<Rightarrow> js_value \<Rightarrow> container \<Rightarrow> container" where
  "register key val c = AList.update key val c"

definition resolve :: "string \<Rightarrow> container \<Rightarrow> js_value" where
  "resolve key c = (case map_of c key of None \<Rightarrow> JUndefined | Some v \<Rightarrow> v)"

text \<open>
  \<open>isConstructable\<close>: \<open>try { new object() } catch (err) { if
  (err.message.indexOf('is not a constructor') >= 0) return false } return true\<close>.
  When the caught value has no \<open>message\<close>, reading \<open>indexOf\<close> of \<open>undefined\<close> raises
  inside the handler and the method does not return.
\<close>

definition isConstructable :: "js_value \<Rightarrow> error + bool" where
  "isConstructable object =
     (case js_new object of
        Inr built \<Rightarrow> Inr True
      | Inl (ErrorMessage message) \<Rightarrow>
          (if indexOf message ''is not a constructor'' \<ge> 0 then Inr False else Inr True)
      | Inl NoMessage \<Rightarrow> Inl (TypeError ''err.message is undefined: indexOf''))"

text \<open>
  \<open>buildConstructable\<close>: the keys and a spread copy of the constructor's own enumerable
  properties are taken first, then the instance is built, then every key is assigned
  on the instance from the copy.
\<close>

definition buildConstructable :: "js_value \<Rightarrow> error + js_value" where
  "buildConstructable object =
     (if object = JUndefined then Inl (TypeError ''Cannot convert undefined or null to object'')
      else
        let staticPropKeys = map fst (own_enumerable object);
            staticClassPrototype = JObject (own_enumerable object)
        in (case js_new object of
              Inl t \<Rightarrow> Inl (Raised t)
            | Inr constructable \<Rightarrow>
                Inr (foldl (\<lambda>inst key. set_prop inst key (get_prop staticClassPrototype key))
                       constructable staticPropKeys)))"

text \<open>
  The body of the \<open>forEach\<close> callback of \<open>initialize\<close>, up to the \<open>register\<close> call:
  the value to store for \<open>val\<close>.
\<close>

definition dependency_of :: "js_value \<Rightarrow> error + js_value" where
  "dependency_of val =
     (case isConstructable val of
        Inl e \<Rightarrow> Inl e
      | Inr b \<Rightarrow> (if b then buildConstructable val else Inr val))"

text \<open>
  \<open>this.container.forEach((val, key) => ...)\<close>: the entries are visited in order; the
  callback only overwrites the key it is visiting, so the entries still to come are
  the ones the loop started with.  An exception leaves the container as it is at that
  moment and is returned together with it.
\<close>

fun forEach_entries :: "(string \<times> js_value) list \<Rightarrow> container \<Rightarrow> error option \<times> container" where
  "forEach_entries [] c = (None, c)"
| "forEach_entries ((key, val) # es) c =
     (case dependency_of val of
        Inl e \<Rightarrow> (Some e, c)
      | Inr dependency \<Rightarrow> forEach_entries es (register key dependency c))"

definition container_initialize :: "container \<Rightarrow> error option \<times> container" where
  "container_initialize c = forEach_entries c c"

section \<open>ServiceModule\<close>

text \<open>
  The state is static: \<open>dependencies\<close>, \<open>providerKeys\<close>, \<open>_initialized\<close> and
  \<open>_expressRouter\<close> are properties of class objects.  \<open>ServiceModule\<close> itself owns
  \<open>providerKeys = []\<close> (one array) and \<open>_initialized = false\<close> from its static
  initializers, and neither \<open>dependencies\<close> nor \<open>_expressRouter\<close> (declared without a
  value) until something assigns them on it.  A module is a class extending
  \<open>ServiceModule\<close>, directly or through other classes (\<open>ExpressServiceModule\<close>, another
  module); a static method runs with \<open>this\<close> bound to the class it is called on, which
  may be \<open>ServiceModule\<close> itself.

  Reading \<open>this.x\<close> finds the own property of the nearest class that has one, going
  from the class along the classes it extends up to \<open>ServiceModule\<close>.  Writing
  \<open>this.x = v\<close> creates or replaces the own property of the class \<open>this\<close>.
  A change in place (\<open>this.providerKeys.push(k)\<close>, \<open>this.dependencies.initialize()\<close>,
  \<open>this.dependencies.register(k, v)\<close>) changes the object the read finds, so the own
  property of the class that owns it.  Every array and every container is created by
  one assignment and is the value of that one own property only.

  A world holds the static properties of \<open>ServiceModule\<close>, the own static properties of
  every other class (\<open>None\<close>: the class has no such own property), and for every class
  the list of classes it extends, nearest first, without \<open>ServiceModule\<close>, which ends
  every chain.  Classes are identified by their name, which is also \<open>this.name\<close> in the
  messages.
\<close>

type_synonym router = nat

record statics =
  own_dependencies :: "container option"
  own_providerKeys :: "string list option"
  own_initialized :: "bool option"
  own_expressRouter :: "router option"

record world =
  base_dependencies :: "container option"
  base_providerKeys :: "string list"
  base_initialized :: bool
  base_expressRouter :: "router option"
  classes :: "string \<Rightarrow> statics"
  superclasses :: "string \<Rightarrow> string list"

definition no_statics :: statics where
  "no_statics = \<lparr>own_dependencies = None, own_providerKeys = None,
                  own_initialized = None, own_expressRouter = None\<rparr>"

text \<open>
  A program in which nothing was called yet and every module extends \<open>ServiceModule\<close>
  directly (\<open>ExpressServiceModule\<close>, which has no static value of its own unless one is
  assigned on it, is left out of the chains there); \<open>declared h\<close> is the same with the
  class hierarchy \<open>h\<close>.
\<close>

definition initial_world :: world where
  "initial_world = \<lparr>base_dependencies = None, base_providerKeys = [], base_initialized = False,
                     base_expressRouter = None, classes = (\<lambda>m. no_statics),
                     superclasses = (\<lambda>m. [])\<rparr>"

definition declared :: "(string \<Rightarrow> string list) \<Rightarrow> world" where
  "declared h = initial_world\<lparr>superclasses := h\<rparr>"

text \<open>The own static properties of a class; those of \<open>ServiceModule\<close> are the base fields.\<close>

definition own_of :: "world \<Rightarrow> string \<Rightarrow> statics" where
  "own_of w c =
     (if c = ''ServiceModule'' then
        \<lparr>own_dependencies = base_dependencies w, own_providerKeys = Some (base_providerKeys w),
         own_initialized = Some (base_initialized w), own_expressRouter = base_expressRouter w\<rparr>
      else classes w c)"

definition chain :: "world \<Rightarrow> string \<Rightarrow> string list" where
  "chain w m =
     (if m = ''ServiceModule'' then [''ServiceModule'']
      else m # superclasses w m @ [''ServiceModule''])"

text \<open>
  The property lookup along a chain of classes: the value found, and the class that
  owns it.
\<close>

primrec lookup :: "(statics \<Rightarrow> 'a option) \<Rightarrow> world \<Rightarrow> string list \<Rightarrow> 'a option" where
  "lookup f w [] = None"
| "lookup f w (c # cs) = (case f (own_of w c) of Some x \<Rightarrow> Some x | None \<Rightarrow> lookup f w cs)"

primrec owner :: "(statics \<Rightarrow> 'a option) \<Rightarrow> world \<Rightarrow> string list \<Rightarrow> string option" where
  "owner f w [] = None"
| "owner f w (c # cs) = (case f (own_of w c) of Some x \<Rightarrow> Some c | None \<Rightarrow> owner f w cs)"

definition get_dependencies :: "world \<Rightarrow> string \<Rightarrow> container option" where
  "get_dependencies w m = lookup own_dependencies w (chain w m)"

definition get_providerKeys :: "world \<Rightarrow> string \<Rightarrow> string list" where
  "get_providerKeys w m =
     (case lookup own_providerKeys w (chain w m) of Some ks \<Rightarrow> ks | None \<Rightarrow> base_providerKeys w)"

definition get_initialized :: "world \<Rightarrow> string \<Rightarrow> bool" where
  "get_initialized w m =
     (case lookup own_initialized w (chain w m) of Some b \<Rightarrow> b | None \<Rightarrow> False)"

definition get_expressRouter :: "world \<Rightarrow> string \<Rightarrow> router option" where
  "get_expressRouter w m = lookup own_expressRouter w (chain w m)"

text \<open>The assignments \<open>this.x = v\<close> with \<open>this\<close> the class \<open>m\<close>.\<close>

definition set_dependencies :: "string \<Rightarrow> container \<Rightarrow> world \<Rightarrow> world" where
  "set_dependencies m c w =
     (if m = ''ServiceModule'' then w\<lparr>base_dependencies := Some c\<rparr>
      else w\<lparr>classes := (classes w)(m := (classes w m)\<lparr>own_dependencies := Some c\<rparr>)\<rparr>)"

definition set_providerKeys :: "string \<Rightarrow> string list \<Rightarrow> world \<Rightarrow> world" where
  "set_providerKeys m ks w =
     (if m = ''ServiceModule'' then w\<lparr>base_providerKeys := ks\<rparr>
      else w\<lparr>classes := (classes w)(m := (classes w m)\<lparr>own_providerKeys := Some ks\<rparr>)\<rparr>)"

definition set_initialized :: "string \<Rightarrow> bool \<Rightarrow> world \<Rightarrow> world" where
  "set_initialized m b w =
     (if m = ''ServiceModule'' then w\<lparr>base_initialized := b\<rparr>
      else w\<lparr>classes := (classes w)(m := (classes w m)\<lparr>own_initialized := Some b\<rparr>)\<rparr>)"

definition set_expressRouter :: "string \<Rightarrow> router \<Rightarrow> world \<Rightarrow> world" where
  "set_expressRouter m r w =
     (if m = ''ServiceModule'' then w\<lparr>base_expressRouter := Some r\<rparr>
      else w\<lparr>classes := (classes w)(m := (classes w m)\<lparr>own_expressRouter := Some r\<rparr>)\<rparr>)"

text \<open>
  \<open>this.providerKeys.push(injectionKey)\<close>: in place, on the array the read finds.  Every
  chain ends in \<open>ServiceModule\<close>, which always has its array, so an owner is found.
\<close>

definition push_providerKey :: "string \<Rightarrow> string \<Rightarrow> world \<Rightarrow> world" where
  "push_providerKey m key w =
     (case owner own_providerKeys w (chain w m) of
        Some c \<Rightarrow> set_providerKeys c (get_providerKeys w m @ [key]) w
      | None \<Rightarrow> w)"

text \<open>
  A change of the container \<open>this.dependencies\<close> in place: the class that owns the
  container read gets the changed container.
\<close>

definition update_dependencies :: "string \<Rightarrow> container \<Rightarrow> world \<Rightarrow> world" where
  "update_dependencies m c w =
     (case owner own_dependencies w (chain w m) of
        Some c' \<Rightarrow> set_dependencies c' c w
      | None \<Rightarrow> w)"

text \<open>
  \<open>this.dependencies.register(injectionKey, provider.useClass)\<close>; in the setter the
  container read here is the one assigned on its first line.
\<close>

definition register_dependency :: "string \<Rightarrow> string \<Rightarrow> js_value \<Rightarrow> world \<Rightarrow> world" where
  "register_dependency m key val w =
     (case get_dependencies w m of
        Some c \<Rightarrow> update_dependencies m (register key val c) w
      | None \<Rightarrow> w)"

datatype token = InjectionKey string | Constructor string

text \<open>
  \<open>Constructor<any> | InjectionKey\<close>: a string, or a constructor function, of which
  the module reads only \<open>name\<close>.
\<close>

fun injectionKey :: "token \<Rightarrow> string" where
  "injectionKey (InjectionKey s) = s"
| "injectionKey (Constructor name) = name"

record ClassProvider =
  provide :: token
  useClass :: js_value

definition initialize :: "string \<Rightarrow> world \<Rightarrow> error option \<times> world" where
  "initialize m w =
     (if \<not> get_initialized w m then
        (case get_dependencies w m of
           None \<Rightarrow> (Some (TypeError ''this.dependencies is undefined: initialize''), w)
         | Some c \<Rightarrow>
             (case container_initialize c of
                (Some e, c') \<Rightarrow> (Some e, update_dependencies m c' w)
              | (None, c') \<Rightarrow> (None, set_initialized m True (update_dependencies m c' w))))
      else
        (Some (DoubleInitialization (m @
           '' is already initialized. Please destroy the existing instance of this module before initializing a new one.'')),
         w))"

definition destroy :: "string \<Rightarrow> world \<Rightarrow> error option \<times> world" where
  "destroy m w =
     (if get_initialized w m then
        (None, set_initialized m False (set_providerKeys m [] (set_dependencies m [] w)))
      else
        (Some (NotInitialized (''No instance of '' @ m @ '' has been initialized.'')), w))"

definition set_provider :: "string \<Rightarrow> world \<Rightarrow> ClassProvider \<Rightarrow> world" where
  "set_provider m w provider =
     (let key = injectionKey (provide provider)
      in register_dependency m key (useClass provider) (push_providerKey m key w))"

definition providers_set :: "string \<Rightarrow> ClassProvider list \<Rightarrow> world \<Rightarrow> error option \<times> world" where
  "providers_set m myProviders w =
     (let w1 = set_dependencies m [] w
      in if \<not> get_initialized w1 m then (None, foldl (set_provider m) w1 myProviders)
         else
           (Some (ProvidersAfterInit (m @
              '' has already been initialized. Cannot set providers after module is initialized.'')),
            w1))"

definition resolveDependency :: "string \<Rightarrow> token \<Rightarrow> world \<Rightarrow> error + js_value" where
  "resolveDependency m dependency w =
     (if \<not> get_initialized w m then
        Inl (NotInitialized (m @
          '' has not yet been initialized. Please use the initializer to utilize this module.''))
      else
        let dependencyKey = injectionKey dependency
        in if dependencyKey \<notin> set (get_providerKeys w m) then
             Inl (UnresolvedKey (''Nothing provided for '' @ dependencyKey @ ''.''))
           else
             (case get_dependencies w m of
                None \<Rightarrow> Inl (TypeError ''this.dependencies is undefined: resolve'')
              | Some c \<Rightarrow> Inr (resolve dependencyKey c)))"

definition serviceModule :: "ClassProvider list \<Rightarrow> string \<Rightarrow> world \<Rightarrow> error option \<times> world" where
  "serviceModule providers target w = providers_set target providers w"

section \<open>ExpressServiceModule\<close>

text \<open>
  The getter returns what the read of \<open>this._expressRouter\<close> finds: the handle stored on
  the class or on the nearest class it extends, \<open>undefined\<close> (\<open>None\<close>) when none was
  decorated.
\<close>

definition expressRouter :: "string \<Rightarrow> world \<Rightarrow> error + router option" where
  "expressRouter m w =
     (if \<not> get_initialized w m then
        Inl (NotInitialized (m @
          '' has not yet been initialized. Please use the initializer to utilize this module.''))
      else Inr (get_expressRouter w m))"

definition expressServiceModule ::
    "router \<Rightarrow> ClassProvider list \<Rightarrow> string \<Rightarrow> world \<Rightarrow> error option \<times> world" where
  "expressServiceModule r providers target w =
     serviceModule providers target (set_expressRouter target r w)"

section \<open>Auxiliary notions\<close>

text \<open>The keys a provider list registers, in order, and the container it fills.\<close>

definition keys_of :: "ClassProvider list \<Rightarrow> string list" where
  "keys_of ps = map (\<lambda>p. injectionKey (provide p)) ps"

definition register_all :: "ClassProvider list \<Rightarrow> container \<Rightarrow> container" where
  "register_all ps c = foldl (\<lambda>c p. register (injectionKey (provide p)) (useClass p) c) c ps"

text \<open>
  A client program is a sequence of calls on module classes.  An error raised by a call
  is seen by the caller; the static state stays as the call left it.
\<close>

datatype operation =
    Initialize string
  | Destroy string
  | SetProviders string "ClassProvider list"
  | Decorate string "ClassProvider list"
  | DecorateExpress string router "ClassProvider list"

fun perform :: "world \<Rightarrow> operation \<Rightarrow> world" where
  "perform w (Initialize m) = snd (initialize m w)"
| "perform w (Destroy m) = snd (destroy m w)"
| "perform w (SetProviders m ps) = snd (providers_set m ps w)"
| "perform w (Decorate m ps) = snd (serviceModule ps m w)"
| "perform w (DecorateExpress m r ps) = snd (expressServiceModule r ps m w)"

fun configures :: "string \<Rightarrow> operation \<Rightarrow> bool" where
  "configures m (Initialize m') = False"
| "configures m (Destroy m') = (m' = m)"
| "configures m (SetProviders m' ps) = (m' = m)"
| "configures m (Decorate m' ps) = (m' = m)"
| "configures m (DecorateExpress m' r ps) = (m' = m)"

fun target :: "operation \<Rightarrow> string" where
  "target (Initialize m) = m"
| "target (Destroy m) = m"
| "target (SetProviders m ps) = m"
| "target (Decorate m ps) = m"
| "target (DecorateExpress m r ps) = m"

text \<open>
  Two worlds agree on a set of classes when they have the same class hierarchy and each
  of these classes has the same own container, flag and router handle in both.
\<close>

definition agree_on :: "string set \<Rightarrow> world \<Rightarrow> world \<Rightarrow> bool" where
  "agree_on S w w' \<longleftrightarrow>
     superclasses w' = superclasses w \<and>
     (\<forall>c \<in> S. own_dependencies (own_of w' c) = own_dependencies (own_of w c) \<and>
              own_initialized (own_of w' c) = own_initialized (own_of w c) \<and>
              own_expressRouter (own_of w' c) = own_expressRouter (own_of w c))"

text \<open>What the static methods of a module can observe of the state.\<close>

definition module_view :: "world \<Rightarrow> string \<Rightarrow> container option \<times> string list \<times> bool" where
  "module_view w m = (get_dependencies w m, get_providerKeys w m, get_initialized w m)"

subsection \<open>Example programs\<close>

text \<open>
  The providers \<open>[{provide: 'Logger', useClass: LoggerClass}, {provide: 'config',
  useClass: {debug: true}}]\<close>, where \<open>LoggerClass\<close> has a static member \<open>level\<close> and
  its constructor assigns \<open>prefix\<close>; a class whose constructor runs \<open>throw 'boom'\<close>; and
  a few programs over modules named \<open>App\<close>, \<open>Api\<close>, \<open>Other\<close>, \<open>A\<close> and \<open>B\<close>, where
  \<open>B\<close> extends \<open>A\<close> in \<open>inheriting_world\<close>.
\<close>

definition LoggerClass :: js_value where
  "LoggerClass = JClass ''LoggerClass'' [(''level'', JNumber 3)] (Builds [(''prefix'', JString ''log'')])"

definition Thrower :: js_value where
  "Thrower = JClass ''Thrower'' [] (Raises NoMessage)"

definition example_providers :: "ClassProvider list" where
  "example_providers =
     [\<lparr>provide = InjectionKey ''Logger'', useClass = LoggerClass\<rparr>,
      \<lparr>provide = InjectionKey ''config'', useClass = JObject [(''debug'', JBoolean True)]\<rparr>]"

definition initialized_example :: world where
  "initialized_example = snd (initialize ''App'' (snd (providers_set ''App'' example_providers initial_world)))"

definition stale_providers :: "ClassProvider list" where
  "stale_providers = [\<lparr>provide = InjectionKey ''Cache'', useClass = JNumber 1\<rparr>]"

definition round_trip_example :: world where
  "round_trip_example =
     snd (initialize ''App'' (snd (providers_set ''App'' example_providers
       (snd (destroy ''App''
          (snd (initialize ''App'' (snd (providers_set ''App'' stale_providers initial_world)))))))))"

definition inheriting_world :: world where
  "inheriting_world = declared (\<lambda>m. if m = ''B'' then [''A''] else [])"

definition base_configured_program :: "operation list" where
  "base_configured_program = [SetProviders ''ServiceModule'' example_providers]"

definition parent_initialized_program :: "operation list" where
  "parent_initialized_program = [SetProviders ''A'' example_providers, Initialize ''A'']"

definition unrelated_program :: "operation list" where
  "unrelated_program =
     [Decorate ''Other'' example_providers, Initialize ''Other'', Initialize ''A'',
      Initialize ''B'', Destroy ''Other'', DecorateExpress ''Api'' 7 stale_providers]"

definition first_module_configured :: world where
  "first_module_configured =
     snd (providers_set ''A'' [\<lparr>provide = InjectionKey ''k'', useClass = JNumber 1\<rparr>] initial_world)"

section \<open>Properties of the container\<close>

lemma starts_with_iff: "starts_with s pat \<longleftrightarrow> (\<exists>post. s = pat @ post)"
  by (induction s pat rule: starts_with.induct) auto

lemma indexOf_from_nonneg:
  "0 \<le> i \<Longrightarrow> (0 \<le> indexOf_from s pat i) = (\<exists>pre post. s = pre @ pat @ post)"
proof (induction s arbitrary: i)
  case Nil
  then show ?case by auto
next
  case (Cons c cs)
  show ?case
  proof (cases "starts_with (c # cs) pat")
    case True
    then obtain post where "c # cs = pat @ post" by (auto simp: starts_with_iff)
    then have "c # cs = [] @ pat @ post" by simp
    then have "\<exists>pre post. c # cs = pre @ pat @ post" by blast
    with True Cons.prems show ?thesis by simp
  next
    case False
    have "(\<exists>pre post. cs = pre @ pat @ post) = (\<exists>pre post. c # cs = pre @ pat @ post)"
    proof
      assume "\<exists>pre post. cs = pre @ pat @ post"
      then obtain pre post where "cs = pre @ pat @ post" by blast
      then have "c # cs = (c # pre) @ pat @ post" by simp
      then show "\<exists>pre post. c # cs = pre @ pat @ post" by blast
    next
      assume "\<exists>pre post. c # cs = pre @ pat @ post"
      then obtain pre post where e: "c # cs = pre @ pat @ post" by blast
      show "\<exists>pre post. cs = pre @ pat @ post"
      proof (cases pre)
        case Nil
        with e have "starts_with (c # cs) pat" by (simp add: starts_with_iff)
        with False show ?thesis by simp
      next
        case (Cons a pre')
        with e have "cs = pre' @ pat @ post" by simp
        then show ?thesis by blast
      qed
    qed
    with False Cons.IH [of "i + 1"] Cons.prems show ?thesis by simp
  qed
qed

lemma indexOf_nonneg_iff: "(0 \<le> indexOf s pat) = (\<exists>pre post. s = pre @ pat @ post)"
  by (simp add: indexOf_def indexOf_from_nonneg)

lemma isConstructable_built: "js_new v = Inr inst \<Longrightarrow> isConstructable v = Inr True"
  by (simp add: isConstructable_def)

lemma isConstructable_message:
  "js_new v = Inl (ErrorMessage msg) \<Longrightarrow>
   isConstructable v = Inr (\<not> (\<exists>pre post. msg = pre @ ''is not a constructor'' @ post))"
  by (simp add: isConstructable_def indexOf_nonneg_iff del: append.simps)

lemma isConstructable_no_message:
  "js_new v = Inl NoMessage \<Longrightarrow> \<exists>e. isConstructable v = Inl e"
  by (simp add: isConstructable_def)

lemma map_of_register: "map_of (register k v c) k' = (if k' = k then Some v else map_of c k')"
  by (simp add: register_def update_conv')

lemma keys_register: "fst ` set (register k v c) = insert k (fst ` set c)"
  by (simp add: register_def dom_update)

lemma distinct_register: "distinct (map fst c) \<Longrightarrow> distinct (map fst (register k v c))"
  by (simp add: register_def distinct_update)

lemma distinct_register_all: "distinct (map fst c) \<Longrightarrow> distinct (map fst (register_all ps c))"
  by (induction ps arbitrary: c) (simp_all add: register_all_def distinct_register)

lemma keys_register_all: "fst ` set (register_all ps c) = fst ` set c \<union> set (keys_of ps)"
  by (induction ps arbitrary: c) (auto simp: register_all_def keys_of_def keys_register)

lemma register_all_append: "register_all (ps @ qs) c = register_all qs (register_all ps c)"
  by (simp add: register_all_def)

lemma map_of_register_all_other:
  "k \<notin> set (keys_of ps) \<Longrightarrow> map_of (register_all ps c) k = map_of c k"
  by (induction ps arbitrary: c) (simp_all add: register_all_def keys_of_def map_of_register)

lemma map_of_register_all_last:
  "injectionKey (provide p) \<notin> set (keys_of post) \<Longrightarrow>
   map_of (register_all (pre @ [p] @ post) c) (injectionKey (provide p)) = Some (useClass p)"
proof -
  assume fresh: "injectionKey (provide p) \<notin> set (keys_of post)"
  have "register_all (pre @ [p] @ post) c =
        register_all post (register (injectionKey (provide p)) (useClass p) (register_all pre c))"
    by (simp add: register_all_def)
  with fresh show ?thesis
    by (simp add: map_of_register_all_other map_of_register)
qed

lemma forEach_entries_ok:
  "forEach_entries es c = (None, c') \<Longrightarrow> distinct (map fst es) \<Longrightarrow>
   (k \<notin> fst ` set es \<longrightarrow> map_of c' k = map_of c k) \<and>
   (\<forall>v. (k, v) \<in> set es \<longrightarrow> (\<exists>d. dependency_of v = Inr d \<and> map_of c' k = Some d))"
proof (induction es arbitrary: c)
  case Nil
  then show ?case by simp
next
  case (Cons e es)
  obtain key val where e: "e = (key, val)" by (cases e)
  from Cons.prems(1) e obtain d where d: "dependency_of val = Inr d"
    and rest: "forEach_entries es (register key d c) = (None, c')"
    by (auto split: sum.splits)
  from Cons.prems(2) e have fresh: "key \<notin> fst ` set es" and dist: "distinct (map fst es)"
    by auto
  note IH = Cons.IH [OF rest dist]
  show ?case
  proof (intro conjI impI allI)
    assume "k \<notin> fst ` set (e # es)"
    with e IH show "map_of c' k = map_of c k" by (simp add: map_of_register)
  next
    fix v assume v: "(k, v) \<in> set (e # es)"
    show "\<exists>d. dependency_of v = Inr d \<and> map_of c' k = Some d"
    proof (cases "(k, v) \<in> set es")
      case True
      with IH show ?thesis by blast
    next
      case False
      with v e have kv: "k = key" "v = val" by auto
      with fresh IH have "map_of c' k = map_of (register key d c) k" by blast
      with kv d show ?thesis by (simp add: map_of_register)
    qed
  qed
qed

lemma forEach_entries_keys:
  "forEach_entries es c = (r, c') \<Longrightarrow> fst ` set es \<subseteq> fst ` set c \<Longrightarrow> fst ` set c' = fst ` set c"
proof (induction es arbitrary: c)
  case Nil
  then show ?case by simp
next
  case (Cons e es)
  obtain key val where e: "e = (key, val)" by (cases e)
  show ?case
  proof (cases "dependency_of val")
    case (Inl err)
    with Cons.prems e show ?thesis by simp
  next
    case (Inr d)
    with Cons.prems e have rest: "forEach_entries es (register key d c) = (r, c')" by simp
    from Cons.prems(2) e have sub: "fst ` set es \<subseteq> fst ` set (register key d c)"
      and same: "fst ` set (register key d c) = fst ` set c"
      by (auto simp: keys_register)
    from Cons.IH [OF rest sub] same show ?thesis by simp
  qed
qed

lemma container_initialize_keys:
  "container_initialize c = (r, c') \<Longrightarrow> fst ` set c' = fst ` set c"
  unfolding container_initialize_def by (erule forEach_entries_keys) simp

lemma container_initialize_ok:
  "container_initialize c = (None, c') \<Longrightarrow> distinct (map fst c) \<Longrightarrow> map_of c k = Some v \<Longrightarrow>
   \<exists>d. dependency_of v = Inr d \<and> map_of c' k = Some d"
  unfolding container_initialize_def
  using forEach_entries_ok [of c c c' k] by (auto dest: map_of_SomeD)

section \<open>Properties of the module state\<close>

lemmas setter_defs = set_dependencies_def set_providerKeys_def set_initialized_def
  set_expressRouter_def

lemma superclasses_set [simp]:
  "superclasses (set_dependencies m c w) = superclasses w"
  "superclasses (set_providerKeys m ks w) = superclasses w"
  "superclasses (set_initialized m b w) = superclasses w"
  "superclasses (set_expressRouter m r w) = superclasses w"
  by (simp_all add: setter_defs)

lemma chain_set [simp]:
  "chain (set_dependencies m c w) m' = chain w m'"
  "chain (set_providerKeys m ks w) m' = chain w m'"
  "chain (set_initialized m b w) m' = chain w m'"
  "chain (set_expressRouter m r w) m' = chain w m'"
  by (simp_all add: chain_def)

lemma own_of_set [simp]:
  "own_of (set_dependencies m c w) c' =
     (if c' = m then (own_of w m)\<lparr>own_dependencies := Some c\<rparr> else own_of w c')"
  "own_of (set_providerKeys m ks w) c' =
     (if c' = m then (own_of w m)\<lparr>own_providerKeys := Some ks\<rparr> else own_of w c')"
  "own_of (set_initialized m b w) c' =
     (if c' = m then (own_of w m)\<lparr>own_initialized := Some b\<rparr> else own_of w c')"
  "own_of (set_expressRouter m r w) c' =
     (if c' = m then (own_of w m)\<lparr>own_expressRouter := Some r\<rparr> else own_of w c')"
  by (simp_all add: own_of_def setter_defs)

lemma base_providerKeys_own: "own_providerKeys (own_of w ''ServiceModule'') = Some (base_providerKeys w)"
  by (simp add: own_of_def)

lemma lookup_cong:
  "(\<And>c. c \<in> set cs \<Longrightarrow> f (own_of w' c) = f (own_of w c)) \<Longrightarrow> lookup f w' cs = lookup f w cs"
  by (induction cs) (simp_all split: option.splits)

lemma owner_cong:
  "(\<And>c. c \<in> set cs \<Longrightarrow> f (own_of w' c) = f (own_of w c)) \<Longrightarrow> owner f w' cs = owner f w cs"
  by (induction cs) (simp_all split: option.splits)

lemma lookup_None_iff: "lookup f w cs = None \<longleftrightarrow> (\<forall>c \<in> set cs. f (own_of w c) = None)"
  by (induction cs) (auto split: option.splits)

lemma owner_None_iff: "owner f w cs = None \<longleftrightarrow> lookup f w cs = None"
  by (induction cs) (auto split: option.splits)

lemma owner_Some:
  "owner f w cs = Some c \<Longrightarrow> c \<in> set cs \<and> lookup f w cs = f (own_of w c) \<and> f (own_of w c) \<noteq> None"
  by (induction cs) (auto split: option.splits)

lemma lookup_head: "f (own_of w m) = Some x \<Longrightarrow> lookup f w (m # cs) = Some x"
  by simp

lemma owner_head: "f (own_of w m) = Some x \<Longrightarrow> owner f w (m # cs) = Some m"
  by simp

lemma lookup_chain_own: "f (own_of w m) = Some x \<Longrightarrow> lookup f w (chain w m) = Some x"
  by (auto simp: chain_def)

lemma lookup_write_owner:
  "owner f w cs = Some c \<Longrightarrow> f (own_of w' c) = Some y \<Longrightarrow>
   (\<And>c'. c' \<noteq> c \<Longrightarrow> f (own_of w' c') = f (own_of w c')) \<Longrightarrow> lookup f w' cs = Some y"
proof (induction cs)
  case Nil
  then show ?case by simp
next
  case (Cons a cs)
  show ?case
  proof (cases "f (own_of w a)")
    case None
    with Cons.prems(1) have o: "owner f w cs = Some c" by simp
    from o have "f (own_of w c) \<noteq> None" by (simp add: owner_Some)
    with None have "a \<noteq> c" by auto
    with Cons.prems(3) None have "f (own_of w' a) = None" by simp
    with Cons.IH [OF o Cons.prems(2,3)] show ?thesis by simp
  next
    case (Some x)
    with Cons.prems(1) have "a = c" by simp
    with Cons.prems(2) show ?thesis by simp
  qed
qed

lemma lookup_mem: "c \<in> set cs \<Longrightarrow> f (own_of w c) \<noteq> None \<Longrightarrow> lookup f w cs \<noteq> None"
  by (auto simp: lookup_None_iff)

lemma providerKeys_owner: "\<exists>c. owner own_providerKeys w (chain w m) = Some c"
proof -
  have "''ServiceModule'' \<in> set (chain w m)" by (simp add: chain_def)
  moreover have "own_providerKeys (own_of w ''ServiceModule'') \<noteq> None"
    by (simp add: own_of_def)
  ultimately have "lookup own_providerKeys w (chain w m) \<noteq> None"
    by (rule lookup_mem)
  then show ?thesis by (cases "owner own_providerKeys w (chain w m)") (auto simp: owner_None_iff)
qed

lemma base_fields_set [simp]:
  "base_providerKeys (set_dependencies m c w) = base_providerKeys w"
  "base_providerKeys (set_initialized m b w) = base_providerKeys w"
  "base_providerKeys (set_expressRouter m r w) = base_providerKeys w"
  by (simp_all add: setter_defs)

lemma get_providerKeys_lookup:
  "lookup own_providerKeys w (chain w m) = Some (get_providerKeys w m)"
proof -
  from providerKeys_owner [of w m] obtain c where "owner own_providerKeys w (chain w m) = Some c" ..
  then have "lookup own_providerKeys w (chain w m) \<noteq> None" by (simp add: owner_Some)
  then show ?thesis by (auto simp: get_providerKeys_def)
qed

lemma get_providerKeys_cong:
  "chain w' m = chain w m \<Longrightarrow>
   (\<And>c. own_providerKeys (own_of w' c) = own_providerKeys (own_of w c)) \<Longrightarrow>
   get_providerKeys w' m = get_providerKeys w m"
  using get_providerKeys_lookup [of w' m] get_providerKeys_lookup [of w m]
    lookup_cong [of "chain w m" own_providerKeys w' w]
  by simp

text \<open>What each assignment does to each read.\<close>

lemma get_set_dependencies:
  "get_dependencies (set_dependencies m c w) m = Some c"
  "get_providerKeys (set_dependencies m c w) m' = get_providerKeys w m'"
  "get_initialized (set_dependencies m c w) m' = get_initialized w m'"
  "get_expressRouter (set_dependencies m c w) m' = get_expressRouter w m'"
proof -
  show "get_dependencies (set_dependencies m c w) m = Some c"
    by (simp add: get_dependencies_def chain_def)
  show "get_providerKeys (set_dependencies m c w) m' = get_providerKeys w m'"
    by (rule get_providerKeys_cong) simp_all
  have "lookup own_initialized (set_dependencies m c w) (chain w m') = lookup own_initialized w (chain w m')"
    by (rule lookup_cong) simp
  then show "get_initialized (set_dependencies m c w) m' = get_initialized w m'"
    by (simp add: get_initialized_def)
  have "lookup own_expressRouter (set_dependencies m c w) (chain w m') = lookup own_expressRouter w (chain w m')"
    by (rule lookup_cong) simp
  then show "get_expressRouter (set_dependencies m c w) m' = get_expressRouter w m'"
    by (simp add: get_expressRouter_def)
qed

lemma get_set_providerKeys:
  "get_providerKeys (set_providerKeys m ks w) m = ks"
  "get_dependencies (set_providerKeys m ks w) m' = get_dependencies w m'"
  "get_initialized (set_providerKeys m ks w) m' = get_initialized w m'"
  "get_expressRouter (set_providerKeys m ks w) m' = get_expressRouter w m'"
proof -
  show "get_providerKeys (set_providerKeys m ks w) m = ks"
    by (simp add: get_providerKeys_def chain_def)
  have "lookup own_dependencies (set_providerKeys m ks w) (chain w m') = lookup own_dependencies w (chain w m')"
    by (rule lookup_cong) simp
  then show "get_dependencies (set_providerKeys m ks w) m' = get_dependencies w m'"
    by (simp add: get_dependencies_def)
  have "lookup own_initialized (set_providerKeys m ks w) (chain w m') = lookup own_initialized w (chain w m')"
    by (rule lookup_cong) simp
  then show "get_initialized (set_providerKeys m ks w) m' = get_initialized w m'"
    by (simp add: get_initialized_def)
  have "lookup own_expressRouter (set_providerKeys m ks w) (chain w m') = lookup own_expressRouter w (chain w m')"
    by (rule lookup_cong) simp
  then show "get_expressRouter (set_providerKeys m ks w) m' = get_expressRouter w m'"
    by (simp add: get_expressRouter_def)
qed

lemma get_set_initialized:
  "get_initialized (set_initialized m b w) m = b"
  "get_dependencies (set_initialized m b w) m' = get_dependencies w m'"
  "get_providerKeys (set_initialized m b w) m' = get_providerKeys w m'"
  "get_expressRouter (set_initialized m b w) m' = get_expressRouter w m'"
proof -
  show "get_initialized (set_initialized m b w) m = b"
    by (simp add: get_initialized_def chain_def)
  have "lookup own_dependencies (set_initialized m b w) (chain w m') = lookup own_dependencies w (chain w m')"
    by (rule lookup_cong) simp
  then show "get_dependencies (set_initialized m b w) m' = get_dependencies w m'"
    by (simp add: get_dependencies_def)
  show "get_providerKeys (set_initialized m b w) m' = get_providerKeys w m'"
    by (rule get_providerKeys_cong) simp_all
  have "lookup own_expressRouter (set_initialized m b w) (chain w m') = lookup own_expressRouter w (chain w m')"
    by (rule lookup_cong) simp
  then show "get_expressRouter (set_initialized m b w) m' = get_expressRouter w m'"
    by (simp add: get_expressRouter_def)
qed

lemma get_set_expressRouter:
  "get_expressRouter (set_expressRouter m r w) m = Some r"
  "get_dependencies (set_expressRouter m r w) m' = get_dependencies w m'"
  "get_providerKeys (set_expressRouter m r w) m' = get_providerKeys w m'"
  "get_initialized (set_expressRouter m r w) m' = get_initialized w m'"
proof -
  show "get_expressRouter (set_expressRouter m r w) m = Some r"
    by (simp add: get_expressRouter_def chain_def)
  have "lookup own_dependencies (set_expressRouter m r w) (chain w m') = lookup own_dependencies w (chain w m')"
    by (rule lookup_cong) simp
  then show "get_dependencies (set_expressRouter m r w) m' = get_dependencies w m'"
    by (simp add: get_dependencies_def)
  show "get_providerKeys (set_expressRouter m r w) m' = get_providerKeys w m'"
    by (rule get_providerKeys_cong) simp_all
  have "lookup own_initialized (set_expressRouter m r w) (chain w m') = lookup own_initialized w (chain w m')"
    by (rule lookup_cong) simp
  then show "get_initialized (set_expressRouter m r w) m' = get_initialized w m'"
    by (simp add: get_initialized_def)
qed

lemma update_dependencies_other:
  "get_providerKeys (update_dependencies m c' w) m' = get_providerKeys w m'"
  "get_initialized (update_dependencies m c' w) m' = get_initialized w m'"
  "get_expressRouter (update_dependencies m c' w) m' = get_expressRouter w m'"
  by (simp_all add: update_dependencies_def get_set_dependencies split: option.splits)

lemma update_dependencies_at:
  assumes "get_dependencies w m = Some c"
  shows "get_dependencies (update_dependencies m c' w) m = Some c'"
proof -
  from assms have "owner own_dependencies w (chain w m) \<noteq> None"
    by (simp add: get_dependencies_def owner_None_iff)
  then obtain c0 where o: "owner own_dependencies w (chain w m) = Some c0" by auto
  have "lookup own_dependencies (set_dependencies c0 c' w) (chain w m) = Some c'"
    by (rule lookup_write_owner [OF o]) simp_all
  with o show ?thesis by (simp add: update_dependencies_def get_dependencies_def)
qed

lemma push_providerKey_other:
  "get_dependencies (push_providerKey m key w) m' = get_dependencies w m'"
  "get_initialized (push_providerKey m key w) m' = get_initialized w m'"
  "get_expressRouter (push_providerKey m key w) m' = get_expressRouter w m'"
  by (simp_all add: push_providerKey_def get_set_providerKeys split: option.splits)

lemma push_providerKey_at:
  "get_providerKeys (push_providerKey m key w) m = get_providerKeys w m @ [key]"
proof -
  from providerKeys_owner [of w m] obtain c0 where
    o: "owner own_providerKeys w (chain w m) = Some c0" ..
  let ?w' = "set_providerKeys c0 (get_providerKeys w m @ [key]) w"
  have "lookup own_providerKeys ?w' (chain w m) = Some (get_providerKeys w m @ [key])"
    by (rule lookup_write_owner [OF o]) simp_all
  then have "get_providerKeys ?w' m = get_providerKeys w m @ [key]"
    by (simp add: get_providerKeys_def)
  with o show ?thesis by (simp add: push_providerKey_def)
qed

lemma set_provider_at:
  assumes "get_dependencies w m = Some c"
  shows "get_dependencies (set_provider m w p) m = Some (register (injectionKey (provide p)) (useClass p) c)"
    and "get_providerKeys (set_provider m w p) m = get_providerKeys w m @ [injectionKey (provide p)]"
    and "get_initialized (set_provider m w p) m = get_initialized w m"
    and "get_expressRouter (set_provider m w p) m = get_expressRouter w m"
proof -
  let ?k = "injectionKey (provide p)"
  let ?w1 = "push_providerKey m ?k w"
  have d1: "get_dependencies ?w1 m = Some c" using assms by (simp add: push_providerKey_other)
  have sp: "set_provider m w p = update_dependencies m (register ?k (useClass p) c) ?w1"
    using d1 by (simp add: set_provider_def Let_def register_dependency_def)
  show "get_dependencies (set_provider m w p) m = Some (register ?k (useClass p) c)"
    using update_dependencies_at [OF d1] sp by simp
  show "get_providerKeys (set_provider m w p) m = get_providerKeys w m @ [?k]"
    by (simp add: sp update_dependencies_other push_providerKey_at)
  show "get_initialized (set_provider m w p) m = get_initialized w m"
    by (simp add: sp update_dependencies_other push_providerKey_other)
  show "get_expressRouter (set_provider m w p) m = get_expressRouter w m"
    by (simp add: sp update_dependencies_other push_providerKey_other)
qed

lemma setter_loop_at:
  "get_dependencies w m = Some c \<Longrightarrow>
   get_dependencies (foldl (set_provider m) w ps) m = Some (register_all ps c) \<and>
   get_providerKeys (foldl (set_provider m) w ps) m = get_providerKeys w m @ keys_of ps \<and>
   get_initialized (foldl (set_provider m) w ps) m = get_initialized w m \<and>
   get_expressRouter (foldl (set_provider m) w ps) m = get_expressRouter w m"
proof (induction ps arbitrary: w c)
  case Nil
  then show ?case by (simp add: register_all_def keys_of_def)
next
  case (Cons p ps)
  note step = set_provider_at [OF Cons.prems, of p]
  from Cons.IH [OF step(1)] step show ?case
    by (simp add: register_all_def keys_of_def)
qed

lemma providers_set_uninitialized:
  assumes "\<not> get_initialized w m"
  shows "fst (providers_set m ps w) = None"
    and "get_dependencies (snd (providers_set m ps w)) m = Some (register_all ps [])"
    and "get_providerKeys (snd (providers_set m ps w)) m = get_providerKeys w m @ keys_of ps"
    and "get_initialized (snd (providers_set m ps w)) m = False"
    and "get_expressRouter (snd (providers_set m ps w)) m = get_expressRouter w m"
proof -
  let ?w1 = "set_dependencies m [] w"
  have a: "get_dependencies ?w1 m = Some []" and b: "\<not> get_initialized ?w1 m"
    and c: "get_providerKeys ?w1 m = get_providerKeys w m"
    and d: "get_expressRouter ?w1 m = get_expressRouter w m"
    using assms by (simp_all add: get_set_dependencies)
  have r: "providers_set m ps w = (None, foldl (set_provider m) ?w1 ps)"
    using b by (simp add: providers_set_def Let_def)
  show "fst (providers_set m ps w) = None" by (simp add: r)
  from setter_loop_at [OF a, of ps] b c d r
  show "get_dependencies (snd (providers_set m ps w)) m = Some (register_all ps [])"
    and "get_providerKeys (snd (providers_set m ps w)) m = get_providerKeys w m @ keys_of ps"
    and "get_initialized (snd (providers_set m ps w)) m = False"
    and "get_expressRouter (snd (providers_set m ps w)) m = get_expressRouter w m"
    by simp_all
qed

lemma providers_set_initialized:
  "get_initialized w m \<Longrightarrow>
   providers_set m ps w =
     (Some (ProvidersAfterInit (m @
        '' has already been initialized. Cannot set providers after module is initialized.'')),
      set_dependencies m [] w)"
  by (simp add: providers_set_def Let_def get_set_dependencies)

lemma initialize_ok:
  assumes "initialize m w = (None, w')"
  shows "\<not> get_initialized w m"
    and "\<exists>c c'. get_dependencies w m = Some c \<and> container_initialize c = (None, c') \<and>
           get_dependencies w' m = Some c'"
    and "get_initialized w' m"
    and "get_providerKeys w' m = get_providerKeys w m"
    and "get_expressRouter w' m = get_expressRouter w m"
proof -
  from assms show u: "\<not> get_initialized w m"
    by (auto simp: initialize_def split: if_splits)
  from assms u obtain c where c: "get_dependencies w m = Some c"
    by (cases "get_dependencies w m") (auto simp: initialize_def)
  from assms u c obtain c' where ci: "container_initialize c = (None, c')"
    and w': "w' = set_initialized m True (update_dependencies m c' w)"
    by (cases "container_initialize c") (auto simp: initialize_def split: option.splits)
  from update_dependencies_at [OF c, of c'] w'
  have "get_dependencies w' m = Some c'" by (simp add: get_set_initialized)
  with c ci show "\<exists>c c'. get_dependencies w m = Some c \<and> container_initialize c = (None, c') \<and>
           get_dependencies w' m = Some c'" by blast
  show "get_initialized w' m" by (simp add: w' get_set_initialized)
  show "get_providerKeys w' m = get_providerKeys w m"
    by (simp add: w' get_set_initialized update_dependencies_other)
  show "get_expressRouter w' m = get_expressRouter w m"
    by (simp add: w' get_set_initialized update_dependencies_other)
qed

lemma destroy_initialized:
  assumes "get_initialized w m"
  shows "fst (destroy m w) = None"
    and "get_dependencies (snd (destroy m w)) m = Some []"
    and "get_providerKeys (snd (destroy m w)) m = []"
    and "\<not> get_initialized (snd (destroy m w)) m"
  using assms
  by (simp_all add: destroy_def get_set_initialized get_set_providerKeys get_set_dependencies)

lemma initialize_view:
  assumes "\<not> get_initialized w m" and "get_dependencies w m = Some c"
  shows "fst (initialize m w) = fst (container_initialize c) \<and>
         module_view (snd (initialize m w)) m =
           (Some (snd (container_initialize c)), get_providerKeys w m, fst (container_initialize c) = None)"
proof (cases "container_initialize c")
  case (Pair e c')
  show ?thesis
  proof (cases e)
    case None
    with Pair assms update_dependencies_at [OF assms(2), of c'] show ?thesis
      by (simp add: initialize_def module_view_def get_set_initialized update_dependencies_other)
  next
    case (Some err)
    with Pair assms update_dependencies_at [OF assms(2), of c'] show ?thesis
      by (simp add: initialize_def module_view_def update_dependencies_other)
  qed
qed

lemma resolveDependency_view:
  "module_view w m = module_view w' m \<Longrightarrow> resolveDependency m d w = resolveDependency m d w'"
  by (auto simp: module_view_def resolveDependency_def Let_def)

lemma copy_statics_instance:
  "\<exists>fs'. foldl (\<lambda>inst key. set_prop inst key (get_prop proto key)) (JInstance c fs) ks = JInstance c fs' \<and>
         (\<forall>k. map_of fs' k = (if k \<in> set ks then Some (get_prop proto k) else map_of fs k))"
proof (induction ks arbitrary: fs)
  case Nil
  then show ?case by simp
next
  case (Cons a ks)
  from Cons.IH [of "AList.update a (get_prop proto a) fs"]
  show ?case by (auto simp: update_conv')
qed

lemma buildConstructable_Inr:
  assumes "buildConstructable v = Inr r"
  shows "\<exists>c st fs fs'. v = JClass c st (Builds fs) \<and> r = JInstance c fs' \<and>
           map_of fs' = map_of fs ++ map_of st"
proof -
  from assms obtain inst where new: "js_new v = Inr inst"
    by (auto simp: buildConstructable_def Let_def split: if_splits sum.splits)
  then obtain c st fs where v: "v = JClass c st (Builds fs)" and inst: "inst = JInstance c fs"
    by (cases v rule: js_new.cases) auto
  from copy_statics_instance [of "JObject st" c fs "map fst st"]
  obtain fs' where f: "foldl (\<lambda>inst key. set_prop inst key (get_prop (JObject st) key))
                          (JInstance c fs) (map fst st) = JInstance c fs'"
    and m: "\<And>k. map_of fs' k = (if k \<in> set (map fst st) then Some (get_prop (JObject st) k) else map_of fs k)"
    by blast
  from assms v f have r: "r = JInstance c fs'"
    by (simp add: buildConstructable_def Let_def)
  have "map_of fs' k = (map_of fs ++ map_of st) k" for k
  proof (cases "map_of st k")
    case None
    then have "k \<notin> set (map fst st)" by (simp add: map_of_eq_None_iff)
    with m None show ?thesis by (simp add: map_add_def)
  next
    case (Some x)
    then have "k \<in> set (map fst st)" by (auto dest: map_of_SomeD intro: rev_image_eqI)
    with m Some show ?thesis by (simp add: map_add_def get_prop_def)
  qed
  with v r show ?thesis by blast
qed

lemma dependency_of_Inr:
  assumes "dependency_of v = Inr r"
  shows "(isConstructable v = Inr False \<and> r = v) \<or>
         (isConstructable v = Inr True \<and>
          (\<exists>c st fs fs'. v = JClass c st (Builds fs) \<and> r = JInstance c fs' \<and>
              map_of fs' = map_of fs ++ map_of st))"
proof (cases "isConstructable v")
  case (Inl e)
  with assms show ?thesis by (simp add: dependency_of_def)
next
  case (Inr b)
  show ?thesis
  proof (cases b)
    case True
    with Inr assms have "buildConstructable v = Inr r" by (simp add: dependency_of_def)
    from buildConstructable_Inr [OF this] Inr True show ?thesis by simp
  next
    case False
    with Inr assms show ?thesis by (simp add: dependency_of_def)
  qed
qed

lemma last_provider_of_key:
  "k \<in> set (keys_of ps) \<Longrightarrow>
   \<exists>pre p post. ps = pre @ [p] @ post \<and> injectionKey (provide p) = k \<and> k \<notin> set (keys_of post)"
proof (induction ps rule: rev_induct)
  case Nil
  then show ?case by (simp add: keys_of_def)
next
  case (snoc q qs)
  show ?case
  proof (cases "injectionKey (provide q) = k")
    case True
    then have "qs @ [q] = qs @ [q] @ [] \<and> injectionKey (provide q) = k \<and> k \<notin> set (keys_of [])"
      by (simp add: keys_of_def)
    then show ?thesis by blast
  next
    case False
    with snoc.prems have "k \<in> set (keys_of qs)" by (auto simp: keys_of_def)
    from snoc.IH [OF this] obtain pre p post where
      "qs = pre @ [p] @ post" "injectionKey (provide p) = k" "k \<notin> set (keys_of post)" by blast
    with False have "qs @ [q] = pre @ [p] @ (post @ [q]) \<and> injectionKey (provide p) = k \<and>
        k \<notin> set (keys_of (post @ [q]))"
      by (simp add: keys_of_def)
    then show ?thesis by blast
  qed
qed

text \<open>Resolution in a module whose container was filled from \<open>ps\<close> and then initialized.\<close>

lemma resolve_initialized:
  assumes deps: "get_dependencies w1 m = Some (register_all ps [])"
      and keys: "set (keys_of ps) \<subseteq> set (get_providerKeys w1 m)"
      and init: "initialize m w1 = (None, w')"
      and k: "k \<in> set (keys_of ps)"
      and dep: "injectionKey dep = k"
  shows "\<exists>pre p post r. ps = pre @ [p] @ post \<and> injectionKey (provide p) = k \<and>
           k \<notin> set (keys_of post) \<and> resolveDependency m dep w' = Inr r \<and>
           dependency_of (useClass p) = Inr r"
proof -
  from last_provider_of_key [OF k] obtain pre p post where
    ps: "ps = pre @ [p] @ post" and kp: "injectionKey (provide p) = k"
    and last: "k \<notin> set (keys_of post)" by blast
  from initialize_ok [OF init] deps obtain c' where
    ci: "container_initialize (register_all ps []) = (None, c')"
    and d': "get_dependencies w' m = Some c'"
    and i': "get_initialized w' m"
    and k': "get_providerKeys w' m = get_providerKeys w1 m"
    by auto
  have dist: "distinct (map fst (register_all ps []))"
    by (rule distinct_register_all) simp
  have "map_of (register_all ps []) k = Some (useClass p)"
    using map_of_register_all_last [of p post pre "[]"] kp last ps by simp
  from container_initialize_ok [OF ci dist this] obtain r where
    r: "dependency_of (useClass p) = Inr r" and m: "map_of c' k = Some r" by blast
  from k keys k' have "k \<in> set (get_providerKeys w' m)" by auto
  with i' d' m dep have "resolveDependency m dep w' = Inr r"
    by (simp add: resolveDependency_def Let_def resolve_def)
  with ps kp last r show ?thesis by blast
qed

lemma resolve_absent:
  assumes "get_initialized w m" and "get_dependencies w m = Some c"
      and "injectionKey dep \<in> set (get_providerKeys w m)"
      and "injectionKey dep \<notin> fst ` set c"
  shows "resolveDependency m dep w = Inr JUndefined"
proof -
  from assms(4) have "map_of c (injectionKey dep) = None" by (simp add: map_of_eq_None_iff)
  with assms(1-3) show ?thesis by (simp add: resolveDependency_def Let_def resolve_def)
qed

lemmas world_defs = get_dependencies_def get_providerKeys_def get_initialized_def
  get_expressRouter_def own_of_def chain_def setter_defs
  push_providerKey_def update_dependencies_def register_dependency_def set_provider_def

lemmas eval_defs = providers_set_def initialize_def destroy_def resolveDependency_def
  expressRouter_def expressServiceModule_def serviceModule_def
  container_initialize_def dependency_of_def isConstructable_def buildConstructable_def
  register_def resolve_def get_prop_def indexOf_def world_defs initial_world_def declared_def
  no_statics_def keys_of_def Let_def LoggerClass_def example_providers_def

lemma initialized_example_view:
  "get_initialized initialized_example ''App'' \<and>
   get_providerKeys initialized_example ''App'' = [''Logger'', ''config''] \<and>
   get_dependencies initialized_example ''App'' =
     Some [(''Logger'', JInstance ''LoggerClass'' [(''prefix'', JString ''log''), (''level'', JNumber 3)]),
           (''config'', JObject [(''debug'', JBoolean True)])]"
  by (simp add: initialized_example_def eval_defs)

lemma agree_on_refl: "agree_on S w w"
  by (simp add: agree_on_def)

lemma agree_on_trans: "agree_on S w w1 \<Longrightarrow> agree_on S w1 w2 \<Longrightarrow> agree_on S w w2"
  by (simp add: agree_on_def)

lemma agree_on_chain: "agree_on S w w' \<Longrightarrow> chain w' m = chain w m"
  by (simp add: agree_on_def chain_def)

lemma agree_on_lookup:
  assumes "agree_on S w w'" and "set cs \<subseteq> S"
  shows "lookup own_dependencies w' cs = lookup own_dependencies w cs"
    and "lookup own_initialized w' cs = lookup own_initialized w cs"
    and "lookup own_expressRouter w' cs = lookup own_expressRouter w cs"
proof -
  have *: "own_dependencies (own_of w' c) = own_dependencies (own_of w c) \<and>
           own_initialized (own_of w' c) = own_initialized (own_of w c) \<and>
           own_expressRouter (own_of w' c) = own_expressRouter (own_of w c)" if "c \<in> set cs" for c
    using assms that by (auto simp: agree_on_def)
  show "lookup own_dependencies w' cs = lookup own_dependencies w cs"
    by (rule lookup_cong) (simp add: *)
  show "lookup own_initialized w' cs = lookup own_initialized w cs"
    by (rule lookup_cong) (simp add: *)
  show "lookup own_expressRouter w' cs = lookup own_expressRouter w cs"
    by (rule lookup_cong) (simp add: *)
qed

lemma agree_on_reads:
  assumes "agree_on S w w'" and "set (chain w m) \<subseteq> S"
  shows "get_dependencies w' m = get_dependencies w m"
    and "get_initialized w' m = get_initialized w m"
    and "get_expressRouter w' m = get_expressRouter w m"
  using agree_on_lookup [OF assms] agree_on_chain [OF assms(1), of m]
  by (simp_all add: get_dependencies_def get_initialized_def get_expressRouter_def)

text \<open>Assignments on a class outside \<open>S\<close>, and every change of a key list, leave \<open>S\<close> alone.\<close>

lemma agree_on_set:
  "x \<notin> S \<Longrightarrow> agree_on S w (set_dependencies x c w)"
  "x \<notin> S \<Longrightarrow> agree_on S w (set_initialized x b w)"
  "x \<notin> S \<Longrightarrow> agree_on S w (set_expressRouter x r w)"
  "agree_on S w (set_providerKeys y ks w)"
  by (auto simp: agree_on_def)

lemma agree_on_push: "agree_on S w (push_providerKey x key w)"
  by (simp add: push_providerKey_def agree_on_set agree_on_refl split: option.splits)

lemma agree_on_update_dependencies:
  assumes "\<forall>c \<in> S \<inter> set (chain w x). own_dependencies (own_of w c) = None"
  shows "agree_on S w (update_dependencies x c' w)"
proof (cases "owner own_dependencies w (chain w x)")
  case None
  then show ?thesis by (simp add: update_dependencies_def agree_on_refl)
next
  case (Some c0)
  from owner_Some [OF Some] have "c0 \<in> set (chain w x)" "own_dependencies (own_of w c0) \<noteq> None"
    by simp_all
  with assms have "c0 \<notin> S" by auto
  with Some show ?thesis by (simp add: update_dependencies_def agree_on_set)
qed

lemma agree_on_none:
  "agree_on S w w' \<Longrightarrow> \<forall>c \<in> S \<inter> set (chain w x). own_dependencies (own_of w c) = None \<Longrightarrow>
   \<forall>c \<in> S \<inter> set (chain w' x). own_dependencies (own_of w' c) = None"
  by (auto simp: agree_on_def chain_def)

lemma agree_on_set_provider:
  assumes "\<forall>c \<in> S \<inter> set (chain w x). own_dependencies (own_of w c) = None"
  shows "agree_on S w (set_provider x w p)"
proof -
  let ?k = "injectionKey (provide p)"
  let ?w1 = "push_providerKey x ?k w"
  have a: "agree_on S w ?w1" by (rule agree_on_push)
  from agree_on_none [OF a assms]
  have n: "\<forall>c \<in> S \<inter> set (chain ?w1 x). own_dependencies (own_of ?w1 c) = None" .
  have "agree_on S ?w1 (register_dependency x ?k (useClass p) ?w1)"
    by (simp add: register_dependency_def agree_on_refl agree_on_update_dependencies [OF n]
        split: option.splits)
  with a show ?thesis by (simp add: set_provider_def Let_def) (rule agree_on_trans)
qed

lemma agree_on_setter_loop:
  "\<forall>c \<in> S \<inter> set (chain w x). own_dependencies (own_of w c) = None \<Longrightarrow>
   agree_on S w (foldl (set_provider x) w ps)"
proof (induction ps arbitrary: w)
  case Nil
  then show ?case by (simp add: agree_on_refl)
next
  case (Cons p ps)
  note a = agree_on_set_provider [OF Cons.prems, of p]
  from Cons.IH [OF agree_on_none [OF a Cons.prems]] a show ?case
    by simp (rule agree_on_trans)
qed

lemma agree_on_providers_set:
  assumes "x \<notin> S" and "\<forall>c \<in> S \<inter> set (chain w x). own_dependencies (own_of w c) = None"
  shows "agree_on S w (snd (providers_set x ps w))"
proof -
  let ?w1 = "set_dependencies x [] w"
  have a: "agree_on S w ?w1" using assms(1) by (rule agree_on_set)
  note n = agree_on_none [OF a assms(2)]
  show ?thesis
  proof (cases "get_initialized ?w1 x")
    case True
    with a show ?thesis by (simp add: providers_set_def Let_def)
  next
    case False
    with agree_on_trans [OF a agree_on_setter_loop [OF n, of ps]] show ?thesis
      by (simp add: providers_set_def Let_def)
  qed
qed

lemma agree_on_initialize:
  assumes "x \<notin> S" and "\<forall>c \<in> S \<inter> set (chain w x). own_dependencies (own_of w c) = None"
  shows "agree_on S w (snd (initialize x w))"
proof -
  have u: "agree_on S w (update_dependencies x c' w)" for c'
    by (rule agree_on_update_dependencies [OF assms(2)])
  have i: "agree_on S w (set_initialized x True (update_dependencies x c' w))" for c'
    by (rule agree_on_trans [OF u agree_on_set(2) [OF assms(1)]])
  show ?thesis
    by (auto simp: initialize_def agree_on_refl u i split: option.splits prod.splits)
qed

lemma agree_on_destroy:
  assumes "x \<notin> S"
  shows "agree_on S w (snd (destroy x w))"
proof -
  have "agree_on S w (set_initialized x False (set_providerKeys x [] (set_dependencies x [] w)))"
    by (rule agree_on_trans [OF agree_on_trans [OF agree_on_set(1) [OF assms] agree_on_set(4)]
          agree_on_set(2) [OF assms]])
  then show ?thesis by (simp add: destroy_def agree_on_refl)
qed

lemma agree_on_perform:
  assumes "target op \<notin> S"
      and "\<forall>c \<in> S \<inter> set (chain w (target op)). own_dependencies (own_of w c) = None"
  shows "agree_on S w (perform w op)"
proof (cases op)
  case (Initialize x)
  with assms show ?thesis by (simp add: agree_on_initialize)
next
  case (Destroy x)
  with assms show ?thesis by (simp add: agree_on_destroy)
next
  case (SetProviders x ps)
  with assms show ?thesis by (simp add: agree_on_providers_set)
next
  case (Decorate x ps)
  with assms show ?thesis by (simp add: serviceModule_def agree_on_providers_set)
next
  case (DecorateExpress x r ps)
  let ?w0 = "set_expressRouter x r w"
  from DecorateExpress assms have x: "x \<notin> S"
    and n: "\<forall>c \<in> S \<inter> set (chain w x). own_dependencies (own_of w c) = None" by simp_all
  have a: "agree_on S w ?w0" using x by (rule agree_on_set)
  from agree_on_trans [OF a agree_on_providers_set [OF x agree_on_none [OF a n], of ps]]
  show ?thesis using DecorateExpress by (simp add: expressServiceModule_def serviceModule_def)
qed

lemma declared_reads:
  "get_dependencies (declared h) m = None"
  "\<not> get_initialized (declared h) m"
  "own_dependencies (own_of (declared h) c) = None"
proof -
  have d: "own_dependencies (own_of (declared h) c) = None" for c
    by (simp add: declared_def initial_world_def own_of_def no_statics_def)
  have i: "own_initialized (own_of (declared h) c) \<noteq> Some True" for c
    by (simp add: declared_def initial_world_def own_of_def no_statics_def)
  show "own_dependencies (own_of (declared h) c) = None" by (rule d)
  show "get_dependencies (declared h) m = None"
    by (simp add: get_dependencies_def lookup_None_iff d)
  have "lookup own_initialized (declared h) cs \<noteq> Some True" for cs
    by (induction cs) (auto simp: i split: option.splits)
  then show "\<not> get_initialized (declared h) m"
    by (auto simp: get_initialized_def split: option.splits)
qed

lemma chain_closed:
  assumes "\<forall>c \<in> set (superclasses w m). set (superclasses w c) \<subseteq> set (superclasses w m)"
      and "x \<in> set (chain w m)"
  shows "set (chain w x) \<subseteq> set (chain w m)"
  using assms by (auto simp: chain_def split: if_splits)

lemma run_unconfigured:
  assumes closed: "\<forall>c \<in> set (superclasses (declared h) m).
                     set (superclasses (declared h) c) \<subseteq> set (superclasses (declared h) m)"
  shows "\<forall>op \<in> set ops. \<forall>c \<in> set (chain (declared h) m). \<not> configures c op \<Longrightarrow>
         agree_on (set (chain (declared h) m)) (declared h) w \<Longrightarrow>
         agree_on (set (chain (declared h) m)) (declared h) (foldl perform w ops)"
proof (induction ops arbitrary: w)
  case Nil
  then show ?case by simp
next
  case (Cons op ops)
  let ?S = "set (chain (declared h) m)"
  note a = Cons.prems(2)
  have sup: "superclasses w = superclasses (declared h)" using a by (simp add: agree_on_def)
  have ch: "chain w x = chain (declared h) x" for x by (simp add: chain_def sup)
  have none: "\<forall>c \<in> ?S. own_dependencies (own_of w c) = None"
    using a by (simp add: agree_on_def declared_reads)
  have step: "agree_on ?S w (perform w op)"
  proof (cases "target op \<in> ?S")
    case False
    from none have "\<forall>c \<in> ?S \<inter> set (chain w (target op)). own_dependencies (own_of w c) = None"
      by simp
    from agree_on_perform [OF False this] show ?thesis .
  next
    case True
    with Cons.prems(1) have "\<not> configures (target op) op" by simp
    then obtain x where op: "op = Initialize x" by (cases op) simp_all
    with True have x: "x \<in> ?S" by simp
    from chain_closed [OF closed x] have sub: "set (chain (declared h) x) \<subseteq> ?S" .
    from agree_on_reads(1,2) [OF a sub] have "get_dependencies w x = None" "\<not> get_initialized w x"
      by (simp_all add: declared_reads)
    with op have "perform w op = w" by (simp add: initialize_def)
    then show ?thesis by (simp add: agree_on_refl)
  qed
  from Cons.prems(1) have rest: "\<forall>op \<in> set ops. \<forall>c \<in> ?S. \<not> configures c op" by simp
  from Cons.IH [OF rest agree_on_trans [OF a step]] show ?case by simp
qed

lemma sibling_frame:
  assumes "m \<notin> set (chain w m')"
      and "\<forall>c \<in> set (chain w m') \<inter> set (chain w m). own_dependencies (own_of w c) = None"
  shows "get_dependencies (snd (providers_set m ps w)) m' = get_dependencies w m'"
    and "get_initialized (snd (providers_set m ps w)) m' = get_initialized w m'"
    and "get_dependencies (snd (initialize m w)) m' = get_dependencies w m'"
    and "get_initialized (snd (initialize m w)) m' = get_initialized w m'"
    and "get_dependencies (snd (destroy m w)) m' = get_dependencies w m'"
    and "get_initialized (snd (destroy m w)) m' = get_initialized w m'"
  using agree_on_reads(1,2) [OF agree_on_providers_set [OF assms, of ps] subset_refl]
    agree_on_reads(1,2) [OF agree_on_initialize [OF assms] subset_refl]
    agree_on_reads(1,2) [OF agree_on_destroy [OF assms(1)] subset_refl]
  by simp_all

section \<open>The claims\<close>

text \<open>
  Claim C1 (independence of modules).  Calls on a module leave the container and the
  flag that another module reads as they were, when that module does not extend the
  first and the classes both extend hold no container (\<open>sibling_frame\<close>); but the
  registered-key list is the one array of \<open>ServiceModule\<close> until a module has run
  \<open>destroy()\<close>.  With two fresh modules \<open>A\<close> and \<open>B\<close> that extend \<open>ServiceModule\<close>
  directly: setting the providers of \<open>A\<close> to one provider with key \<open>k\<close> puts \<open>k\<close> into
  the key list \<open>B\<close> reads; after \<open>B.providers = []\<close> and \<open>B.initialize()\<close>, resolving
  \<open>k\<close> in \<open>B\<close> passes the key check and returns \<open>undefined\<close>.
\<close>

theorem providerKeys_shared_between_modules:
  "get_providerKeys initial_world ''B'' = [] \<and>
   get_providerKeys first_module_configured ''B'' = [''k''] \<and>
   fst (providers_set ''B'' [] first_module_configured) = None \<and>
   fst (initialize ''B'' (snd (providers_set ''B'' [] first_module_configured))) = None \<and>
   resolveDependency ''B'' (InjectionKey ''k'')
     (snd (initialize ''B'' (snd (providers_set ''B'' [] first_module_configured)))) = Inr JUndefined"
  by (simp add: first_module_configured_def eval_defs)

text \<open>
  Claim C2 (resolution after initialization).  Let the providers setter run with \<open>P\<close> on
  an uninitialized module and let \<open>initialize()\<close> return.  Then for every key \<open>k\<close> derived
  from \<open>P\<close>, resolving \<open>k\<close> (given as the string or as a class reference of that name)
  succeeds.  With \<open>p\<close> the provider registered under \<open>k\<close> (the last one in \<open>P\<close> with that
  key), the result is \<open>useClass p\<close> unchanged when that value is not constructable, and
  otherwise an instance of the provided class: the fields its constructor assigns,
  overlaid with the class's own enumerable properties.
\<close>

theorem resolveDependency_after_initialize:
  assumes uninit: "\<not> get_initialized w m"
      and init: "initialize m (snd (providers_set m P w)) = (None, w')"
      and k: "k \<in> set (keys_of P)"
      and dep: "injectionKey dependency = k"
  shows "\<exists>pre p post r.
           P = pre @ [p] @ post \<and> injectionKey (provide p) = k \<and> k \<notin> set (keys_of post) \<and>
           resolveDependency m dependency w' = Inr r \<and>
           ((isConstructable (useClass p) = Inr False \<and> r = useClass p) \<or>
            (isConstructable (useClass p) = Inr True \<and>
             (\<exists>c st fs fs'. useClass p = JClass c st (Builds fs) \<and> r = JInstance c fs' \<and>
                 map_of fs' = map_of fs ++ map_of st)))"
proof -
  let ?w1 = "snd (providers_set m P w)"
  from providers_set_uninitialized [OF uninit, of P]
  have d: "get_dependencies ?w1 m = Some (register_all P [])"
    and ks: "set (keys_of P) \<subseteq> set (get_providerKeys ?w1 m)"
    by simp_all
  from resolve_initialized [OF d ks init k dep] obtain pre p post r where
    "P = pre @ [p] @ post" "injectionKey (provide p) = k" "k \<notin> set (keys_of post)"
    "resolveDependency m dependency w' = Inr r" "dependency_of (useClass p) = Inr r"
    by blast
  with dependency_of_Inr [of "useClass p" r] show ?thesis by blast
qed

theorem resolveDependency_after_initialize_witness:
  "resolveDependency ''App'' (InjectionKey ''Logger'') initialized_example =
     Inr (JInstance ''LoggerClass'' [(''prefix'', JString ''log''), (''level'', JNumber 3)]) \<and>
   resolveDependency ''App'' (InjectionKey ''config'') initialized_example =
     Inr (JObject [(''debug'', JBoolean True)]) \<and>
   (\<exists>pre p post r. example_providers = pre @ [p] @ post \<and>
      injectionKey (provide p) = ''config'' \<and>
      resolveDependency ''App'' (Constructor ''config'') initialized_example = Inr r \<and>
      isConstructable (useClass p) = Inr False \<and> r = useClass p)"
proof -
  have a: "\<not> get_initialized initial_world ''App''" by (simp add: eval_defs)
  have b: "initialize ''App'' (snd (providers_set ''App'' example_providers initial_world)) =
             (None, initialized_example)"
    by (simp add: initialized_example_def eval_defs)
  have c: "''config'' \<in> set (keys_of example_providers)" by (simp add: eval_defs)
  have d: "injectionKey (Constructor ''config'') = ''config''" by simp
  from resolveDependency_after_initialize [OF a b c d] obtain pre p post r where
    f: "example_providers = pre @ [p] @ post" "injectionKey (provide p) = ''config''"
       "resolveDependency ''App'' (Constructor ''config'') initialized_example = Inr r"
       "(isConstructable (useClass p) = Inr False \<and> r = useClass p) \<or>
        (isConstructable (useClass p) = Inr True \<and>
         (\<exists>c st fs fs'. useClass p = JClass c st (Builds fs) \<and> r = JInstance c fs' \<and>
             map_of fs' = map_of fs ++ map_of st))"
    by blast
  have "resolveDependency ''App'' (Constructor ''config'') initialized_example =
          Inr (JObject [(''debug'', JBoolean True)])"
    by (simp add: resolveDependency_def Let_def resolve_def initialized_example_view)
  with f(3,4) have "isConstructable (useClass p) = Inr False \<and> r = useClass p" by auto
  with f(1-3) have "\<exists>pre p post r. example_providers = pre @ [p] @ post \<and>
      injectionKey (provide p) = ''config'' \<and>
      resolveDependency ''App'' (Constructor ''config'') initialized_example = Inr r \<and>
      isConstructable (useClass p) = Inr False \<and> r = useClass p" by blast
  moreover have "resolveDependency ''App'' (InjectionKey ''Logger'') initialized_example =
     Inr (JInstance ''LoggerClass'' [(''prefix'', JString ''log''), (''level'', JNumber 3)])"
    and "resolveDependency ''App'' (InjectionKey ''config'') initialized_example =
     Inr (JObject [(''debug'', JBoolean True)])"
    by (simp_all add: resolveDependency_def Let_def resolve_def initialized_example_view)
  ultimately show ?thesis by blast
qed

text \<open>
  Claim C3 (constructable detection).  The probe classifies by the message of what the
  zero-argument construction throws.  A constructor that throws a value without a
  \<open>message\<close> (here the class \<open>Thrower\<close>, whose constructor runs \<open>throw 'boom'\<close>) does
  not raise a "is not a constructor" error, yet \<open>isConstructable\<close> does not classify it:
  the handler itself raises a \<open>TypeError\<close>, and so does \<open>initialize()\<close> of a module that
  was given the class as a provider.
\<close>

theorem isConstructable_raises_on_messageless_throw:
  "js_new Thrower = Inl NoMessage \<and>
   isConstructable Thrower = Inl (TypeError ''err.message is undefined: indexOf'') \<and>
   fst (initialize ''App''
         (snd (providers_set ''App'' [\<lparr>provide = InjectionKey ''T'', useClass = Thrower\<rparr>]
                initial_world)))
     = Some (TypeError ''err.message is undefined: indexOf'')"
  by (simp add: Thrower_def eval_defs)

text \<open>
  Claim C4 (round trip).  Let a module be configured with \<open>P1\<close> and initialized (so the
  keys of \<open>P1\<close> are registered).  Then \<open>destroy()\<close> and the providers setter with \<open>P2\<close>
  both return, and the final \<open>initialize()\<close> has the same outcome and leaves the same
  observable module (container, registered keys, flag, hence every resolution) as the
  same two calls on a module of a fresh program.  When it returns, the registered keys
  are exactly those of \<open>P2\<close>, the container has exactly those keys, every key outside
  \<open>P2\<close> (so every key that only occurred in \<open>P1\<close>) raises \<open>UnresolvedKey\<close>, and every
  key of \<open>P2\<close> resolves to the value \<open>initialize\<close> stored for its provider.
\<close>

theorem reinitialize_round_trip:
  assumes uninit: "\<not> get_initialized w0 m"
      and first: "initialize m (snd (providers_set m P1 w0)) = (None, w)"
      and wagain: "wagain = snd (providers_set m P2 (snd (destroy m w)))"
      and wfresh: "wfresh = snd (providers_set m P2 initial_world)"
  shows "set (keys_of P1) \<subseteq> set (get_providerKeys w m) \<and>
         fst (destroy m w) = None \<and>
         fst (providers_set m P2 (snd (destroy m w))) = None \<and>
         fst (initialize m wagain) = fst (initialize m wfresh) \<and>
         module_view (snd (initialize m wagain)) m = module_view (snd (initialize m wfresh)) m \<and>
         (\<forall>dependency. resolveDependency m dependency (snd (initialize m wagain)) =
                        resolveDependency m dependency (snd (initialize m wfresh))) \<and>
         (\<forall>w'. initialize m wagain = (None, w') \<longrightarrow>
            get_providerKeys w' m = keys_of P2 \<and>
            (\<exists>c'. get_dependencies w' m = Some c' \<and> fst ` set c' = set (keys_of P2)) \<and>
            (\<forall>dependency. injectionKey dependency \<notin> set (keys_of P2) \<longrightarrow>
               resolveDependency m dependency w' =
                 Inl (UnresolvedKey (''Nothing provided for '' @ injectionKey dependency @ ''.''))) \<and>
            (\<forall>dependency. injectionKey dependency \<in> set (keys_of P2) \<longrightarrow>
               (\<exists>pre p post r. P2 = pre @ [p] @ post \<and>
                  injectionKey (provide p) = injectionKey dependency \<and>
                  injectionKey dependency \<notin> set (keys_of post) \<and>
                  resolveDependency m dependency w' = Inr r \<and>
                  dependency_of (useClass p) = Inr r)))"
proof -
  let ?wd = "snd (destroy m w)"
  note s1 = providers_set_uninitialized [OF uninit, of P1]
  note i1 = initialize_ok [OF first]
  have k1: "set (keys_of P1) \<subseteq> set (get_providerKeys w m)"
    using s1(3) i1(4) by simp
  note d = destroy_initialized [OF i1(3)]
  note s2 = providers_set_uninitialized [OF d(4), of P2]
  have ur: "\<not> get_initialized wagain m"
    and dr: "get_dependencies wagain m = Some (register_all P2 [])"
    and kr: "get_providerKeys wagain m = keys_of P2"
    using s2 d(3) wagain by simp_all
  have u0: "\<not> get_initialized initial_world m"
    and k0: "get_providerKeys initial_world m = []"
    by (simp_all add: initial_world_def no_statics_def world_defs)
  note s3 = providers_set_uninitialized [OF u0, of P2]
  have uf: "\<not> get_initialized wfresh m"
    and df: "get_dependencies wfresh m = Some (register_all P2 [])"
    and kf: "get_providerKeys wfresh m = keys_of P2"
    using s3 k0 wfresh by simp_all
  note vr = initialize_view [OF ur dr]
  note vf = initialize_view [OF uf df]
  have same: "fst (initialize m wagain) = fst (initialize m wfresh)"
    and view: "module_view (snd (initialize m wagain)) m = module_view (snd (initialize m wfresh)) m"
    using vr vf kr kf by simp_all
  have obs: "\<forall>dependency. resolveDependency m dependency (snd (initialize m wagain)) =
                        resolveDependency m dependency (snd (initialize m wfresh))"
    using resolveDependency_view [OF view] by blast
  have after: "get_providerKeys w' m = keys_of P2 \<and>
            (\<exists>c'. get_dependencies w' m = Some c' \<and> fst ` set c' = set (keys_of P2)) \<and>
            (\<forall>dependency. injectionKey dependency \<notin> set (keys_of P2) \<longrightarrow>
               resolveDependency m dependency w' =
                 Inl (UnresolvedKey (''Nothing provided for '' @ injectionKey dependency @ ''.''))) \<and>
            (\<forall>dependency. injectionKey dependency \<in> set (keys_of P2) \<longrightarrow>
               (\<exists>pre p post r. P2 = pre @ [p] @ post \<and>
                  injectionKey (provide p) = injectionKey dependency \<and>
                  injectionKey dependency \<notin> set (keys_of post) \<and>
                  resolveDependency m dependency w' = Inr r \<and>
                  dependency_of (useClass p) = Inr r))"
    if i: "initialize m wagain = (None, w')" for w'
  proof -
    from initialize_ok [OF i] dr obtain c' where
      ci: "container_initialize (register_all P2 []) = (None, c')"
      and d': "get_dependencies w' m = Some c'"
      and i': "get_initialized w' m"
      and k': "get_providerKeys w' m = get_providerKeys wagain m"
      by auto
    have keys: "get_providerKeys w' m = keys_of P2" using k' kr by simp
    have dom: "fst ` set c' = set (keys_of P2)"
      using container_initialize_keys [OF ci] by (simp add: keys_register_all)
    have miss: "\<forall>dependency. injectionKey dependency \<notin> set (keys_of P2) \<longrightarrow>
               resolveDependency m dependency w' =
                 Inl (UnresolvedKey (''Nothing provided for '' @ injectionKey dependency @ ''.''))"
      using i' keys by (simp add: resolveDependency_def Let_def)
    have hit: "\<forall>dependency. injectionKey dependency \<in> set (keys_of P2) \<longrightarrow>
               (\<exists>pre p post r. P2 = pre @ [p] @ post \<and>
                  injectionKey (provide p) = injectionKey dependency \<and>
                  injectionKey dependency \<notin> set (keys_of post) \<and>
                  resolveDependency m dependency w' = Inr r \<and>
                  dependency_of (useClass p) = Inr r)"
    proof (intro allI impI)
      fix dependency assume "injectionKey dependency \<in> set (keys_of P2)"
      from resolve_initialized [OF dr _ i this refl] kr
      show "\<exists>pre p post r. P2 = pre @ [p] @ post \<and>
                  injectionKey (provide p) = injectionKey dependency \<and>
                  injectionKey dependency \<notin> set (keys_of post) \<and>
                  resolveDependency m dependency w' = Inr r \<and>
                  dependency_of (useClass p) = Inr r"
        by simp
    qed
    from keys d' dom miss hit show ?thesis by blast
  qed
  from k1 d(1) s2(1) same view obs after show ?thesis by blast
qed

theorem reinitialize_round_trip_witness:
  "get_providerKeys round_trip_example ''App'' = [''Logger'', ''config''] \<and>
   module_view round_trip_example ''App'' = module_view initialized_example ''App'' \<and>
   resolveDependency ''App'' (InjectionKey ''Cache'') round_trip_example =
     Inl (UnresolvedKey ''Nothing provided for Cache.'') \<and>
   (\<exists>r. resolveDependency ''App'' (InjectionKey ''Logger'') round_trip_example = Inr r)"
proof -
  let ?w = "snd (initialize ''App'' (snd (providers_set ''App'' stale_providers initial_world)))"
  let ?wagain = "snd (providers_set ''App'' example_providers (snd (destroy ''App'' ?w)))"
  have a: "\<not> get_initialized initial_world ''App''" by (simp add: eval_defs)
  have b: "initialize ''App'' (snd (providers_set ''App'' stale_providers initial_world)) = (None, ?w)"
    by (simp add: eval_defs stale_providers_def)
  have c: "initialize ''App'' ?wagain = (None, round_trip_example)"
    by (simp add: round_trip_example_def eval_defs stale_providers_def)
  have d: "snd (initialize ''App'' ?wagain) = round_trip_example"
    by (simp add: round_trip_example_def)
  have e: "keys_of example_providers = [''Logger'', ''config'']" by (simp add: eval_defs)
  have f: "snd (initialize ''App'' (snd (providers_set ''App'' example_providers initial_world)))
             = initialized_example"
    by (simp add: initialized_example_def)
  note t = reinitialize_round_trip [OF a b refl refl, of example_providers]
  from t have "module_view (snd (initialize ''App'' ?wagain)) ''App'' =
      module_view (snd (initialize ''App''
        (snd (providers_set ''App'' example_providers initial_world)))) ''App''"
    by (elim conjE)
  with d f have view: "module_view round_trip_example ''App'' = module_view initialized_example ''App''"
    by simp
  from t have "\<forall>w'. initialize ''App'' ?wagain = (None, w') \<longrightarrow>
            get_providerKeys w' ''App'' = keys_of example_providers \<and>
            (\<exists>c'. get_dependencies w' ''App'' = Some c' \<and> fst ` set c' = set (keys_of example_providers)) \<and>
            (\<forall>dependency. injectionKey dependency \<notin> set (keys_of example_providers) \<longrightarrow>
               resolveDependency ''App'' dependency w' =
                 Inl (UnresolvedKey (''Nothing provided for '' @ injectionKey dependency @ ''.''))) \<and>
            (\<forall>dependency. injectionKey dependency \<in> set (keys_of example_providers) \<longrightarrow>
               (\<exists>pre p post r. example_providers = pre @ [p] @ post \<and>
                  injectionKey (provide p) = injectionKey dependency \<and>
                  injectionKey dependency \<notin> set (keys_of post) \<and>
                  resolveDependency ''App'' dependency w' = Inr r \<and>
                  dependency_of (useClass p) = Inr r))"
    by (elim conjE)
  with c have keys: "get_providerKeys round_trip_example ''App'' = keys_of example_providers"
    and miss: "\<forall>dependency. injectionKey dependency \<notin> set (keys_of example_providers) \<longrightarrow>
               resolveDependency ''App'' dependency round_trip_example =
                 Inl (UnresolvedKey (''Nothing provided for '' @ injectionKey dependency @ ''.''))"
    and hit: "\<forall>dependency. injectionKey dependency \<in> set (keys_of example_providers) \<longrightarrow>
               (\<exists>pre p post r. example_providers = pre @ [p] @ post \<and>
                  injectionKey (provide p) = injectionKey dependency \<and>
                  injectionKey dependency \<notin> set (keys_of post) \<and>
                  resolveDependency ''App'' dependency round_trip_example = Inr r \<and>
                  dependency_of (useClass p) = Inr r)"
    by blast+
  from miss [rule_format, of "InjectionKey ''Cache''"] e
  have cache: "resolveDependency ''App'' (InjectionKey ''Cache'') round_trip_example =
     Inl (UnresolvedKey ''Nothing provided for Cache.'')" by simp
  from hit [rule_format, of "InjectionKey ''Logger''"] e
  have logger: "\<exists>r. resolveDependency ''App'' (InjectionKey ''Logger'') round_trip_example = Inr r"
    by auto
  from keys e view cache logger show ?thesis by simp
qed

text \<open>
  Claim C5 (setting providers after initialization).  On an initialized module the
  providers setter raises \<open>ProvidersAfterInit\<close>, but the state it leaves has the module's
  container replaced by an empty one while the flag and the registered keys stay: the
  state differs from the one before whenever the container held anything, and resolving
  any registered key afterwards passes the key check and returns \<open>undefined\<close>.
\<close>

theorem providers_set_after_initialize:
  assumes "get_initialized w m"
  shows "\<exists>w'. providers_set m ps w =
            (Some (ProvidersAfterInit (m @
               '' has already been initialized. Cannot set providers after module is initialized.'')), w') \<and>
          get_dependencies w' m = Some [] \<and>
          get_initialized w' m \<and>
          get_providerKeys w' m = get_providerKeys w m \<and>
          (\<forall>dependency. injectionKey dependency \<in> set (get_providerKeys w m) \<longrightarrow>
             resolveDependency m dependency w' = Inr JUndefined) \<and>
          (get_dependencies w m \<noteq> Some [] \<longrightarrow> w' \<noteq> w)"
proof -
  let ?w' = "set_dependencies m [] w"
  have d: "get_dependencies ?w' m = Some []" and i: "get_initialized ?w' m"
    and k: "get_providerKeys ?w' m = get_providerKeys w m"
    using assms by (simp_all add: get_set_dependencies)
  have r: "\<forall>dependency. injectionKey dependency \<in> set (get_providerKeys w m) \<longrightarrow>
             resolveDependency m dependency ?w' = Inr JUndefined"
    using resolve_absent [OF i d] k by simp
  have c: "get_dependencies w m \<noteq> Some [] \<longrightarrow> ?w' \<noteq> w"
    using d by auto
  from providers_set_initialized [OF assms, of ps] d i k r c show ?thesis by blast
qed

theorem providers_set_after_initialize_witness:
  "get_initialized initialized_example ''App'' \<and>
   fst (providers_set ''App'' [] initialized_example) =
      Some (ProvidersAfterInit
        ''App has already been initialized. Cannot set providers after module is initialized.'') \<and>
   get_dependencies (snd (providers_set ''App'' [] initialized_example)) ''App'' = Some [] \<and>
   resolveDependency ''App'' (InjectionKey ''Logger'') (snd (providers_set ''App'' [] initialized_example))
     = Inr JUndefined \<and>
   snd (providers_set ''App'' [] initialized_example) \<noteq> initialized_example"
proof -
  have a: "get_initialized initialized_example ''App''"
    and b: "''Logger'' \<in> set (get_providerKeys initialized_example ''App'')"
    and c: "get_dependencies initialized_example ''App'' \<noteq> Some []"
    by (simp_all add: initialized_example_view)
  from providers_set_after_initialize [OF a, of "[]"] b c a
  show ?thesis by force
qed

text \<open>
  Claim C6 (instance construction).  For a value classified as constructable, when the
  zero-argument construction returns an instance, \<open>buildConstructable\<close> returns an
  instance of the same class on which every own enumerable property of the constructor
  is readable under the same name with the same value, and every other property is as
  the constructor left it; when the construction throws, \<open>buildConstructable\<close>
  raises what was thrown.
\<close>

theorem buildConstructable_copies_statics:
  assumes "isConstructable v = Inr True"
  shows "(\<forall>inst. js_new v = Inr inst \<longrightarrow>
            (\<exists>c fs. buildConstructable v = Inr (JInstance c fs) \<and>
               (\<forall>key \<in> set (map fst (own_enumerable v)).
                   get_prop (JInstance c fs) key = get_prop v key) \<and>
               (\<forall>key. key \<notin> set (map fst (own_enumerable v)) \<longrightarrow>
                   get_prop (JInstance c fs) key = get_prop inst key))) \<and>
         (\<forall>t. js_new v = Inl t \<longrightarrow> buildConstructable v = Inl (Raised t))"
proof (intro conjI allI impI)
  fix t assume "js_new v = Inl t"
  moreover have "v \<noteq> JUndefined"
    using assms by (auto simp: isConstructable_def indexOf_def)
  ultimately show "buildConstructable v = Inl (Raised t)"
    by (simp add: buildConstructable_def Let_def)
next
  fix inst assume new: "js_new v = Inr inst"
  then obtain c st fs where v: "v = JClass c st (Builds fs)" and inst: "inst = JInstance c fs"
    by (cases v rule: js_new.cases) auto
  from copy_statics_instance [of "JObject st" c fs "map fst st"]
  obtain fs' where f: "foldl (\<lambda>inst key. set_prop inst key (get_prop (JObject st) key))
                          (JInstance c fs) (map fst st) = JInstance c fs'"
    and m: "\<And>k. map_of fs' k = (if k \<in> set (map fst st) then Some (get_prop (JObject st) k) else map_of fs k)"
    by blast
  from v f have b: "buildConstructable v = Inr (JInstance c fs')"
    by (simp add: buildConstructable_def Let_def)
  have "\<forall>key \<in> set (map fst (own_enumerable v)). get_prop (JInstance c fs') key = get_prop v key"
    using v m by (simp add: get_prop_def)
  moreover have "\<forall>key. key \<notin> set (map fst (own_enumerable v)) \<longrightarrow>
      get_prop (JInstance c fs') key = get_prop inst key"
    using v inst m by (simp add: get_prop_def)
  ultimately show "\<exists>c fs. buildConstructable v = Inr (JInstance c fs) \<and>
               (\<forall>key \<in> set (map fst (own_enumerable v)).
                   get_prop (JInstance c fs) key = get_prop v key) \<and>
               (\<forall>key. key \<notin> set (map fst (own_enumerable v)) \<longrightarrow>
                   get_prop (JInstance c fs) key = get_prop inst key)"
    using b by blast
qed

theorem buildConstructable_copies_statics_witness:
  "isConstructable LoggerClass = Inr True \<and>
   js_new LoggerClass = Inr (JInstance ''LoggerClass'' [(''prefix'', JString ''log'')]) \<and>
   (\<exists>c fs. buildConstructable LoggerClass = Inr (JInstance c fs) \<and>
      get_prop (JInstance c fs) ''level'' = JNumber 3 \<and>
      get_prop (JInstance c fs) ''prefix'' = JString ''log'')"
  using buildConstructable_copies_statics [of LoggerClass]
  by (simp add: eval_defs)

text \<open>
  Claim C7 (unregistered key).  In an initialized module, resolving a token whose key
  (the string itself, or the name of the class reference) is not in the module's
  registered-key list raises the \<open>UnresolvedKey\<close> error "Nothing provided for <key>."
  and returns no value.
\<close>

theorem resolveDependency_unregistered:
  assumes "get_initialized w m"
      and "injectionKey dependency \<notin> set (get_providerKeys w m)"
  shows "resolveDependency m dependency w =
           Inl (UnresolvedKey (''Nothing provided for '' @ injectionKey dependency @ ''.''))"
  using assms by (simp add: resolveDependency_def Let_def)

theorem resolveDependency_unregistered_witness:
  "get_initialized initialized_example ''App'' \<and>
   ''Missing'' \<notin> set (get_providerKeys initialized_example ''App'') \<and>
   resolveDependency ''App'' (InjectionKey ''Missing'') initialized_example =
     Inl (UnresolvedKey ''Nothing provided for Missing.'')"
  using resolveDependency_unregistered [of initialized_example "''App''" "InjectionKey ''Missing''"]
  by (simp add: initialized_example_view)

text \<open>
  Claim C8 (initializing an unconfigured module).  As stated the claim fails: a module
  on which neither the setter nor \<open>destroy()\<close> was ever invoked reads the container and
  the flag of the classes it extends.  After \<open>ServiceModule.providers = [...]\<close>,
  \<open>App.initialize()\<close> returns; and with \<open>class B extends A\<close>, after \<open>A.providers = [...]\<close>
  and \<open>A.initialize()\<close>, \<open>B.initialize()\<close> raises \<open>DoubleInitialization\<close>.
\<close>

theorem initialize_reads_inherited_configuration:
  "list_all (\<lambda>op. \<not> configures ''App'' op) base_configured_program \<and>
   fst (initialize ''App'' (foldl perform initial_world base_configured_program)) = None \<and>
   list_all (\<lambda>op. \<not> configures ''B'' op) parent_initialized_program \<and>
   fst (initialize ''B'' (foldl perform inheriting_world parent_initialized_program)) =
     Some (DoubleInitialization
       ''B is already initialized. Please destroy the existing instance of this module before initializing a new one.'')"
  by (simp add: base_configured_program_def parent_initialized_program_def inheriting_world_def
      eval_defs)

text \<open>
  Claim C8, amended.  In a program whose classes extend one another in any way, after any
  sequence of calls in which neither the providers setter (directly or through a
  decorator) nor \<open>destroy()\<close> was invoked on the module \<open>m\<close> or on any class it extends,
  \<open>ServiceModule\<close> included, whatever was done to other classes, \<open>m\<close> reads no dependency
  container and \<open>initialize()\<close> on \<open>m\<close> fails with the engine's \<open>TypeError\<close>, leaving the
  state as it was; that error is none of \<open>DoubleInitialization\<close>, \<open>NotInitialized\<close>,
  \<open>ProvidersAfterInit\<close>, \<open>UnresolvedKey\<close>.  (The classes a class of the chain extends
  belong to the chain.)
\<close>

theorem initialize_unconfigured_chain:
  assumes "\<forall>op \<in> set ops. \<forall>c \<in> set (chain (declared h) m). \<not> configures c op"
      and "\<forall>c \<in> set (superclasses (declared h) m).
             set (superclasses (declared h) c) \<subseteq> set (superclasses (declared h) m)"
      and "w = foldl perform (declared h) ops"
  shows "get_dependencies w m = None \<and>
         initialize m w = (Some (TypeError ''this.dependencies is undefined: initialize''), w) \<and>
         (\<forall>msg. fst (initialize m w) \<notin>
            {Some (DoubleInitialization msg), Some (NotInitialized msg),
             Some (ProvidersAfterInit msg), Some (UnresolvedKey msg), None})"
proof -
  let ?S = "set (chain (declared h) m)"
  from run_unconfigured [OF assms(2) assms(1) agree_on_refl] assms(3)
  have a: "agree_on ?S (declared h) w" by simp
  from agree_on_reads(1,2) [OF a subset_refl]
  have d: "get_dependencies w m = None" and i: "\<not> get_initialized w m"
    by (simp_all add: declared_reads)
  then have "initialize m w = (Some (TypeError ''this.dependencies is undefined: initialize''), w)"
    by (simp add: initialize_def)
  with d show ?thesis by simp
qed

theorem initialize_unconfigured_chain_witness:
  "fst (initialize ''B'' (foldl perform inheriting_world unrelated_program)) =
     Some (TypeError ''this.dependencies is undefined: initialize'') \<and>
   snd (initialize ''B'' (foldl perform inheriting_world unrelated_program)) =
     foldl perform inheriting_world unrelated_program \<and>
   fst (initialize ''App'' initial_world) =
     Some (TypeError ''this.dependencies is undefined: initialize'')"
proof -
  let ?h = "\<lambda>m. if m = ''B'' then [''A''] else []"
  have a: "\<forall>op \<in> set unrelated_program. \<forall>c \<in> set (chain (declared ?h) ''B''). \<not> configures c op"
    by (simp add: unrelated_program_def chain_def declared_def)
  have b: "\<forall>c \<in> set (superclasses (declared ?h) ''B'').
             set (superclasses (declared ?h) c) \<subseteq> set (superclasses (declared ?h) ''B'')"
    by (simp add: declared_def)
  have c: "\<forall>op \<in> set []. \<forall>c \<in> set (chain (declared (\<lambda>m. [])) ''App''). \<not> configures c op"
    by simp
  have d: "\<forall>c \<in> set (superclasses (declared (\<lambda>m. [])) ''App'').
             set (superclasses (declared (\<lambda>m. [])) c) \<subseteq> set (superclasses (declared (\<lambda>m. [])) ''App'')"
    by (simp add: declared_def)
  have e: "declared (\<lambda>m. []) = initial_world" by (simp add: declared_def initial_world_def)
  from initialize_unconfigured_chain [OF a b refl] initialize_unconfigured_chain [OF c d refl] e
  show ?thesis by (simp add: inheriting_world_def)
qed

text \<open>
  Claim C9 (setting providers twice).  Two runs of the providers setter on an
  uninitialized module, with \<open>P1\<close> and then \<open>P2\<close> and no \<open>destroy()\<close> between, both
  return; the registered-key list is the old one followed by the keys of \<open>P1\<close> and then
  those of \<open>P2\<close>, while the container holds exactly the entries of \<open>P2\<close>.  Once
  \<open>initialize()\<close> has returned, resolving a key that occurs only in \<open>P1\<close> returns
  \<open>undefined\<close> instead of raising \<open>UnresolvedKey\<close>.
\<close>

theorem providers_set_twice:
  assumes uninit: "\<not> get_initialized w m"
      and w2: "w2 = snd (providers_set m P2 (snd (providers_set m P1 w)))"
  shows "fst (providers_set m P1 w) = None \<and>
         fst (providers_set m P2 (snd (providers_set m P1 w))) = None \<and>
         get_providerKeys w2 m = get_providerKeys w m @ keys_of P1 @ keys_of P2 \<and>
         (\<exists>c. get_dependencies w2 m = Some c \<and> c = register_all P2 [] \<and>
              fst ` set c = set (keys_of P2)) \<and>
         (\<forall>w' dependency.
             initialize m w2 = (None, w') \<and>
             injectionKey dependency \<in> set (keys_of P1) \<and>
             injectionKey dependency \<notin> set (keys_of P2) \<longrightarrow>
             resolveDependency m dependency w' = Inr JUndefined)"
proof -
  let ?w1 = "snd (providers_set m P1 w)"
  note s1 = providers_set_uninitialized [OF uninit, of P1]
  from s1(4) have u1: "\<not> get_initialized ?w1 m" by simp
  note s2 = providers_set_uninitialized [OF u1, of P2]
  have keys: "get_providerKeys w2 m = get_providerKeys w m @ keys_of P1 @ keys_of P2"
    using s1(3) s2(3) w2 by simp
  have deps: "get_dependencies w2 m = Some (register_all P2 [])"
    using s2(2) w2 by simp
  have dom: "fst ` set (register_all P2 []) = set (keys_of P2)"
    by (simp add: keys_register_all)
  have stale: "resolveDependency m dependency w' = Inr JUndefined"
    if i: "initialize m w2 = (None, w')"
      and k1: "injectionKey dependency \<in> set (keys_of P1)"
      and k2: "injectionKey dependency \<notin> set (keys_of P2)" for w' dependency
  proof -
    from initialize_ok [OF i] deps obtain c' where
      ci: "container_initialize (register_all P2 []) = (None, c')"
      and d': "get_dependencies w' m = Some c'"
      and i': "get_initialized w' m"
      and k': "get_providerKeys w' m = get_providerKeys w2 m"
      by auto
    from container_initialize_keys [OF ci] dom k2
    have "injectionKey dependency \<notin> fst ` set c'" by simp
    moreover from k1 k' keys have "injectionKey dependency \<in> set (get_providerKeys w' m)" by simp
    ultimately show ?thesis using resolve_absent [OF i' d'] by blast
  qed
  from s1(1) s2(1) keys deps dom stale show ?thesis by blast
qed

theorem providers_set_twice_witness:
  "get_providerKeys (snd (providers_set ''App'' example_providers
        (snd (providers_set ''App'' stale_providers initial_world)))) ''App''
     = [''Cache'', ''Logger'', ''config''] \<and>
   resolveDependency ''App'' (InjectionKey ''Cache'')
     (snd (initialize ''App'' (snd (providers_set ''App'' example_providers
        (snd (providers_set ''App'' stale_providers initial_world))))))
     = Inr JUndefined"
proof -
  let ?w2 = "snd (providers_set ''App'' example_providers
        (snd (providers_set ''App'' stale_providers initial_world)))"
  have a: "\<not> get_initialized initial_world ''App''" by (simp add: eval_defs)
  have b: "initialize ''App'' ?w2 = (None, snd (initialize ''App'' ?w2))"
    by (simp add: eval_defs stale_providers_def)
  have c: "injectionKey (InjectionKey ''Cache'') \<in> set (keys_of stale_providers)"
    and d: "injectionKey (InjectionKey ''Cache'') \<notin> set (keys_of example_providers)"
    and e: "get_providerKeys initial_world ''App'' @ keys_of stale_providers @ keys_of example_providers
             = [''Cache'', ''Logger'', ''config'']"
    by (simp_all add: eval_defs stale_providers_def)
  from providers_set_twice [where ?P1.0 = stale_providers and ?P2.0 = example_providers, OF a refl]
    b c d e
  show ?thesis by auto
qed

text \<open>
  Claim C10 (router accessor).  Reading \<open>expressRouter\<close> while the module's initialized
  flag is unset raises the \<open>NotInitialized\<close> error; while the flag is set it returns the
  stored \<open>_expressRouter\<close> as it is: what the read of \<open>this._expressRouter\<close> finds, which
  is the class's own handle when it has one.  In particular, after the decorator stored
  the handle \<open>r\<close> on an uninitialized module and \<open>initialize()\<close> returned, the accessor
  returns \<open>r\<close>.
\<close>

theorem expressRouter_guard:
  "(\<not> get_initialized w m \<longrightarrow>
      expressRouter m w = Inl (NotInitialized (m @
        '' has not yet been initialized. Please use the initializer to utilize this module.''))) \<and>
   (get_initialized w m \<longrightarrow> expressRouter m w = Inr (get_expressRouter w m)) \<and>
   (\<forall>r'. get_initialized w m \<and> own_expressRouter (own_of w m) = Some r' \<longrightarrow>
      expressRouter m w = Inr (Some r')) \<and>
   (\<not> get_initialized w m \<longrightarrow>
      (\<forall>w'. initialize m (snd (expressServiceModule r ps m w)) = (None, w') \<longrightarrow>
         expressRouter m w' = Inr (Some r)))"
proof (intro conjI impI allI)
  assume "\<not> get_initialized w m"
  then show "expressRouter m w = Inl (NotInitialized (m @
        '' has not yet been initialized. Please use the initializer to utilize this module.''))"
    by (simp add: expressRouter_def)
next
  assume "get_initialized w m"
  then show "expressRouter m w = Inr (get_expressRouter w m)"
    by (simp add: expressRouter_def)
next
  fix r'
  assume "get_initialized w m \<and> own_expressRouter (own_of w m) = Some r'"
  then show "expressRouter m w = Inr (Some r')"
    by (simp add: expressRouter_def get_expressRouter_def lookup_chain_own)
next
  fix w'
  assume u: "\<not> get_initialized w m"
    and i: "initialize m (snd (expressServiceModule r ps m w)) = (None, w')"
  let ?w0 = "set_expressRouter m r w"
  have u0: "\<not> get_initialized ?w0 m" and r0: "get_expressRouter ?w0 m = Some r"
    using u by (simp_all add: get_set_expressRouter)
  have e: "expressServiceModule r ps m w = providers_set m ps ?w0"
    by (simp add: expressServiceModule_def serviceModule_def)
  from providers_set_uninitialized(5) [OF u0, of ps] r0 e
  have "get_expressRouter (snd (expressServiceModule r ps m w)) m = Some r" by simp
  with initialize_ok(3,5) [OF i] show "expressRouter m w' = Inr (Some r)"
    by (simp add: expressRouter_def)
qed

theorem expressRouter_guard_witness:
  "expressRouter ''Api'' initial_world = Inl (NotInitialized
      ''Api has not yet been initialized. Please use the initializer to utilize this module.'') \<and>
   expressRouter ''Api''
      (snd (initialize ''Api'' (snd (expressServiceModule 7 example_providers ''Api'' initial_world))))
     = Inr (Some 7)"
proof -
  let ?w1 = "snd (expressServiceModule 7 example_providers ''Api'' initial_world)"
  have a: "\<not> get_initialized initial_world ''Api''" by (simp add: eval_defs)
  have b: "initialize ''Api'' ?w1 = (None, snd (initialize ''Api'' ?w1))"
    by (simp add: eval_defs)
  from expressRouter_guard [of initial_world "''Api''" 7 example_providers] a b
  show ?thesis by simp
qed

end
